theory Spec2Isabelle
  imports Complex_Main "HOL-Library.Word"
begin

unbundle bit_operations_syntax

section \<open>The RFM9x driver: state, errors and the register bus\<close>

text \<open>
  The driver of \<^verbatim>\<open>adafruit_rfm9x.py\<close> keeps no copy of the chip's configuration: every
  property goes through the SPI bus. The model below keeps the source's structure.
  Python integers are \<^typ>\<open>int\<close>, register addresses and the bytes held by the chip
  are 8-bit words, and every \<^verbatim>\<open>raise\<close> or failing \<^verbatim>\<open>assert\<close> is a value of
  \<open>error\<close>, returned together with the state reached when it was raised.

  The bus itself (the \<^verbatim>\<open>pigpio\<close> library and the chip behind it) is not part of the
  driver. It is modelled as a register file: a one-byte read of a register returns the
  byte last written to it. \<^verbatim>\<open>pigpio\<close> packs each transfer into a byte array, so a value
  outside 0..255 raises \<^verbatim>\<open>ValueError\<close> and nothing is transferred. Every transfer that
  is made is appended to \<open>spi_log\<close>, as the list of bytes sent.

  The operations modelled are the bit fields, the mode changes, the setters and getters
  of frequency, transmit power and signal bandwidth, \<^verbatim>\<open>send\<close> and \<^verbatim>\<open>receive_packet\<close>.
\<close>

type_synonym byte = "8 word"

datatype error =
    AssertionError
  | TypeError
  | ValueError
  | StructError
  | RuntimeError string

record driver =
  regs :: "byte \<Rightarrow> byte"
  rx_fifo :: "nat \<Rightarrow> byte"
  spi_log :: "int list list"
  high_power :: bool
  receive_filter_address :: "int option"
  acks :: bool
  last_sent_id :: "int option \<rightharpoonup> int"
  last_received_id :: "int \<rightharpoonup> int"

type_synonym 'a action = "driver \<Rightarrow> (error + 'a) \<times> driver"

definition return :: "'a \<Rightarrow> 'a action" where
  "return v s = (Inr v, s)"

definition raise :: "error \<Rightarrow> 'a action" where
  "raise e s = (Inl e, s)"

text \<open>Sequencing: an error ends the operation and keeps the state reached so far.\<close>

definition seq :: "'a action \<Rightarrow> ('a \<Rightarrow> 'b action) \<Rightarrow> 'b action" where
  "seq m f s = (case m s of (Inl e, s') \<Rightarrow> (Inl e, s') | (Inr v, s') \<Rightarrow> f v s')"

definition py_assert :: "bool \<Rightarrow> unit action" where
  "py_assert b = (if b then return () else raise AssertionError)"

definition is_byte :: "int \<Rightarrow> bool" where
  "is_byte b = (0 \<le> b \<and> b \<le> 255)"

text \<open>\<^verbatim>\<open>pi.spi_xfer(self.spi, data)\<close>: the transfer is sent only if every element is a byte.\<close>

definition spi_xfer :: "int list \<Rightarrow> unit action" where
  "spi_xfer bs s =
     (if list_all is_byte bs then (Inr (), s\<lparr>spi_log := spi_log s @ [bs]\<rparr>)
      else (Inl ValueError, s))"

text \<open>
  \<^verbatim>\<open>_read_u8(address)\<close> is \<^verbatim>\<open>int(self._spi_read(address))\<close>: the transfer
  \<^verbatim>\<open>[register, 0]\<close>, whose second received byte is the register.
\<close>

definition read_u8 :: "byte \<Rightarrow> int action" where
  "read_u8 address =
     seq (spi_xfer [uint address, 0]) (\<lambda>_ s. (Inr (uint (regs s address)), s))"

text \<open>
  \<^verbatim>\<open>_write_u8(register, payload)\<close> with an \<^verbatim>\<open>int\<close> payload: the transfer
  \<^verbatim>\<open>[register | 0x80, payload]\<close>, after which the register holds the payload.
\<close>

definition write_u8 :: "byte \<Rightarrow> int \<Rightarrow> unit action" where
  "write_u8 register payload =
     seq (spi_xfer [uint (register OR 0x80), payload])
       (\<lambda>_ s. (Inr (), s\<lparr>regs := (regs s)(register := word_of_int payload)\<rparr>))"

text \<open>
  \<^verbatim>\<open>_write_u8(register, payload)\<close> with a \<^verbatim>\<open>bytes\<close> payload, used for the FIFO port only:
  the bytes are sent in one transfer. The registers are not changed.
\<close>

definition write_bytes :: "byte \<Rightarrow> int list \<Rightarrow> unit action" where
  "write_bytes register payload = spi_xfer (uint (register OR 0x80) # payload)"

section \<open>Bit fields: \<^verbatim>\<open>_RegisterBits\<close>\<close>

record register_bits =
  address_of :: byte
  mask_of :: int
  offset_of :: nat

text \<open>The loop of \<^verbatim>\<open>__init__\<close>: \<^verbatim>\<open>for _ in range(bits): mask <<= 1; mask |= 1\<close>.\<close>

fun mask_loop :: "nat \<Rightarrow> int \<Rightarrow> int" where
  "mask_loop 0 m = m"
| "mask_loop (Suc n) m = mask_loop n (push_bit 1 m OR 1)"

definition RegisterBits :: "byte \<Rightarrow> int \<Rightarrow> int \<Rightarrow> error + register_bits" where
  "RegisterBits addr off bits =
     (if \<not> (0 \<le> off \<and> off \<le> 7) then Inl AssertionError
      else if \<not> (1 \<le> bits \<and> bits \<le> 8) then Inl AssertionError
      else if \<not> (off + bits \<le> 8) then Inl AssertionError
      else Inr \<lparr>address_of = addr,
                mask_of = push_bit (nat off) (mask_loop (nat bits) 0),
                offset_of = nat off\<rparr>)"

text \<open>\<^verbatim>\<open>__get__\<close>: \<^verbatim>\<open>(reg_value & self._mask) >> self._offset\<close>.\<close>

definition get_bits :: "register_bits \<Rightarrow> int action" where
  "get_bits f =
     seq (read_u8 (address_of f)) (\<lambda>reg_value.
     return (drop_bit (offset_of f) (reg_value AND mask_of f)))"

text \<open>
  \<^verbatim>\<open>__set__\<close>: the register is read, the field's mask is cleared, and
  \<^verbatim>\<open>(val & 0xFF) << self._offset\<close> is OR-ed in before the write. \<open>set_value\<close>
  is the value of \<^verbatim>\<open>reg_value\<close> after the two update statements.
\<close>

definition set_value :: "register_bits \<Rightarrow> int \<Rightarrow> int \<Rightarrow> int" where
  "set_value f reg_value val =
     (reg_value AND NOT (mask_of f)) OR push_bit (offset_of f) (val AND 0xFF)"

definition set_bits :: "register_bits \<Rightarrow> int \<Rightarrow> unit action" where
  "set_bits f val =
     seq (read_u8 (address_of f)) (\<lambda>reg_value.
     write_u8 (address_of f) (set_value f reg_value val))"

text \<open>The fields the class declares. Each construction passes the assertions.\<close>

definition operation_mode :: register_bits where
  "operation_mode = projr (RegisterBits 0x01 0 3)"

definition output_power :: register_bits where
  "output_power = projr (RegisterBits 0x09 0 4)"

definition max_power :: register_bits where
  "max_power = projr (RegisterBits 0x09 4 3)"

definition pa_select :: register_bits where
  "pa_select = projr (RegisterBits 0x09 7 1)"

definition pa_dac :: register_bits where
  "pa_dac = projr (RegisterBits 0x4d 0 3)"


definition tx_done :: register_bits where
  "tx_done = projr (RegisterBits 0x12 3 1)"


section \<open>Operating modes\<close>

abbreviation (input) STANDBY_MODE :: int where "STANDBY_MODE \<equiv> 1"
abbreviation (input) TX_MODE :: int where "TX_MODE \<equiv> 3"
abbreviation (input) RH_RF95_PA_DAC_DISABLE :: int where "RH_RF95_PA_DAC_DISABLE \<equiv> 0x04"
abbreviation (input) RH_RF95_PA_DAC_ENABLE :: int where "RH_RF95_PA_DAC_ENABLE \<equiv> 0x07"
abbreviation (input) RH_BROADCAST_ADDRESS :: int where "RH_BROADCAST_ADDRESS \<equiv> 0xFF"

definition idle :: "unit action" where
  "idle = set_bits operation_mode STANDBY_MODE"


definition transmit :: "unit action" where
  "transmit = seq (set_bits operation_mode TX_MODE) (\<lambda>_. write_u8 0x40 0x40)"

section \<open>Radio configuration\<close>

subsection \<open>Frequency\<close>

text \<open>
  The frequency is a Python float. It is modelled by the rational number it denotes,
  with exact arithmetic. The model agrees with the float computation wherever the
  products and quotients below are exactly representable, which includes every whole
  number of MHz. \<^verbatim>\<open>int(x)\<close> truncates towards zero.
\<close>

abbreviation (input) RH_RF95_FXOSC :: rat where "RH_RF95_FXOSC \<equiv> 32000000"

definition RH_RF95_FSTEP :: rat where
  "RH_RF95_FSTEP = RH_RF95_FXOSC / 524288"

definition py_int :: "rat \<Rightarrow> int" where
  "py_int x = (if 0 \<le> x then \<lfloor>x\<rfloor> else \<lceil>x\<rceil>)"

definition frequency_mhz :: "rat action" where
  "frequency_mhz =
     seq (read_u8 0x06) (\<lambda>msb.
     seq (read_u8 0x07) (\<lambda>mid.
     seq (read_u8 0x08) (\<lambda>lsb.
     let frf = (push_bit 16 msb OR push_bit 8 mid OR lsb) AND 0xFFFFFF
     in return ((of_int frf * RH_RF95_FSTEP) / 1000000))))"

definition frequency_mhz_set :: "rat \<Rightarrow> unit action" where
  "frequency_mhz_set val =
     (if val < 240 \<or> val > 960
      then raise (RuntimeError ''frequency_mhz must be between 240 and 960'')
      else
        let frf = py_int ((val * 1000000) / RH_RF95_FSTEP) AND 0xFFFFFF;
            msb = drop_bit 16 frf;
            mid = drop_bit 8 frf AND 0xFF;
            lsb = frf AND 0xFF
        in seq (write_u8 0x06 msb) (\<lambda>_.
           seq (write_u8 0x07 mid) (\<lambda>_.
           write_u8 0x08 lsb)))"

subsection \<open>Transmit power\<close>

text \<open>
  The power is a Python \<^verbatim>\<open>int\<close> or \<^verbatim>\<open>float\<close>, modelled by the rational number it denotes.
  The setter starts with \<^verbatim>\<open>val = int(val)\<close>, which truncates towards zero and is exact on
  floats, as are the comparisons; everything after it works on the integer.
\<close>

definition tx_power :: "int action" where
  "tx_power s =
     (if high_power s
      then seq (get_bits output_power) (\<lambda>p. return (p + 5)) s
      else seq (get_bits output_power) (\<lambda>p. return (p - 1)) s)"

definition tx_power_set :: "rat \<Rightarrow> unit action" where
  "tx_power_set val s =
     (let val = py_int val
      in if high_power s then
           (if val < 5 \<or> val > 23
            then raise (RuntimeError ''tx_power must be between 5 and 23'') s
            else
              seq (if val > 20
                   then seq (set_bits pa_dac RH_RF95_PA_DAC_ENABLE) (\<lambda>_. return (val - 3))
                   else seq (set_bits pa_dac RH_RF95_PA_DAC_DISABLE) (\<lambda>_. return val))
                (\<lambda>val.
              seq (set_bits pa_select 1) (\<lambda>_.
              set_bits output_power ((val - 5) AND 0x0F))) s)
         else
           seq (py_assert (-1 \<le> val \<and> val \<le> 14)) (\<lambda>_.
           seq (set_bits pa_select 0) (\<lambda>_.
           seq (set_bits max_power 7) (\<lambda>_.
           set_bits output_power ((val + 1) AND 0x0F)))) s)"

subsection \<open>Signal bandwidth\<close>

definition bw_bins :: "int list" where
  "bw_bins = [7800, 10400, 15600, 20800, 31250, 41700, 62500, 125000, 250000]"

text \<open>
  The \<^verbatim>\<open>for bw_id, cutoff in enumerate(self.bw_bins)\<close> loop with its \<^verbatim>\<open>break\<close>, and the
  \<^verbatim>\<open>else\<close> branch taken when the table is exhausted.
\<close>

fun bw_search :: "int \<Rightarrow> int \<Rightarrow> int list \<Rightarrow> int" where
  "bw_search val bw_id [] = 9"
| "bw_search val bw_id (cutoff # rest) =
     (if val \<le> cutoff then bw_id else bw_search val (bw_id + 1) rest)"

definition signal_bandwidth :: "int action" where
  "signal_bandwidth =
     seq (read_u8 0x1d) (\<lambda>r.
     let bw_id = drop_bit 4 (r AND 0xf0)
     in if bw_id \<ge> int (length bw_bins) then return 500000
        else return (bw_bins ! nat bw_id))"

definition signal_bandwidth_set :: "int \<Rightarrow> unit action" where
  "signal_bandwidth_set val =
     (let bw_id = bw_search val 0 bw_bins
      in seq (read_u8 0x1d) (\<lambda>r.
         write_u8 0x1d ((r AND 0x0f) OR push_bit 4 bw_id)))"

subsection \<open>CRC, signal strength\<close>




section \<open>Sending\<close>

text \<open>
  An operation that waits for the chip may not return: its result is an option, and
  \<open>None\<close> stands for a wait that has not ended.
\<close>

type_synonym 'a run = "driver \<Rightarrow> ((error + 'a) \<times> driver) option"

definition lift :: "'a action \<Rightarrow> 'a run" where
  "lift m s = Some (m s)"

definition seq_run :: "'a run \<Rightarrow> ('a \<Rightarrow> 'b run) \<Rightarrow> 'b run" where
  "seq_run m f s =
     (case m s of
        None \<Rightarrow> None
      | Some (Inl e, s') \<Rightarrow> Some (Inl e, s')
      | Some (Inr v, s') \<Rightarrow> f v s')"

text \<open>
  The header is a Python sequence of four items, each an \<^verbatim>\<open>int\<close> or \<^verbatim>\<open>None\<close>. A tuple
  cannot be assigned to; a list can.
\<close>

datatype tx_header = PyTuple "int option list" | PyList "int option list"

fun items :: "tx_header \<Rightarrow> int option list" where
  "items (PyTuple xs) = xs"
| "items (PyList xs) = xs"

text \<open>\<^verbatim>\<open>tx_header[i] = v\<close>, for an index in range.\<close>

fun set_item :: "tx_header \<Rightarrow> nat \<Rightarrow> int option \<Rightarrow> tx_header action" where
  "set_item (PyTuple xs) i v = raise TypeError"
| "set_item (PyList xs) i v = return (PyList (xs[i := v]))"

text \<open>
  The block under \<^verbatim>\<open>if (tx_header[2] == 0)\<close>: the next id for the destination is
  assigned to \<^verbatim>\<open>tx_header[2]\<close>, rolled over at 254, and stored in \<^verbatim>\<open>last_sent_id\<close>.
\<close>

definition allocate_id :: "tx_header \<Rightarrow> tx_header action" where
  "allocate_id h s =
     (if items h ! 2 = Some 0 then
        (let n = (case last_sent_id s (items h ! 0) of Some prev \<Rightarrow> prev + 1 | None \<Rightarrow> 1)
         in seq (set_item h 2 (Some n)) (\<lambda>h1.
            let i = (if n < 254 then n else 1)
            in seq (set_item h1 2 (Some i)) (\<lambda>h2 s'.
                 (Inr h2, s'\<lparr>last_sent_id := (last_sent_id s')(items h2 ! 0 \<mapsto> i)\<rparr>)))) s
      else (Inr h, s))"

text \<open>\<^verbatim>\<open>struct.pack("<BBBB", ...)\<close>: every item must be an integer in 0..255.\<close>

fun struct_pack_B :: "int option list \<Rightarrow> int list action" where
  "struct_pack_B [] = return []"
| "struct_pack_B (None # xs) = raise StructError"
| "struct_pack_B (Some x # xs) =
     (if is_byte x then seq (struct_pack_B xs) (\<lambda>bs. return (x # bs))
      else raise StructError)"

text \<open>
  The polling loop. Each observation is the content the chip presents in the
  IRQ-flags register when \<^verbatim>\<open>self.tx_done\<close> is read, and the value of
  \<^verbatim>\<open>time.monotonic()\<close> read next if the flag is clear. The result is \<^verbatim>\<open>timed_out\<close>.
  When the observations run out the loop has not ended.
\<close>

fun wait_tx_done :: "rat \<Rightarrow> rat \<Rightarrow> (byte \<times> rat) list \<Rightarrow> bool run" where
  "wait_tx_done start timeout [] s = None"
| "wait_tx_done start timeout ((irq, now) # rest) s =
     (case get_bits tx_done (s\<lparr>regs := (regs s)(0x12 := irq)\<rparr>) of
        (Inl e, s') \<Rightarrow> Some (Inl e, s')
      | (Inr flag, s') \<Rightarrow>
          if flag \<noteq> 0 then Some (Inr False, s')
          else if now - start \<ge> timeout then Some (Inr True, s')
          else wait_tx_done start timeout rest s')"

text \<open>The statements of \<^verbatim>\<open>send\<close> up to and including \<^verbatim>\<open>self.transmit()\<close>.\<close>

definition send_prepare :: "byte list \<Rightarrow> tx_header \<Rightarrow> tx_header action" where
  "send_prepare data tx_header =
     seq (py_assert (0 < length data \<and> length data \<le> 252)) (\<lambda>_.
     seq (py_assert (length (items tx_header) = 4)) (\<lambda>_.
     seq (allocate_id tx_header) (\<lambda>tx_header.
     seq idle (\<lambda>_.
     seq (write_u8 0x0d 0x00) (\<lambda>_.
     seq (struct_pack_B (items tx_header)) (\<lambda>packed.
     let payload = packed @ map uint data
     in
     seq (write_bytes 0x00 payload) (\<lambda>_.
     seq (write_u8 0x22 (int (length payload))) (\<lambda>_.
     seq transmit (\<lambda>_.
     return tx_header)))))))))"

text \<open>The statements of \<^verbatim>\<open>send\<close> after the polling loop.\<close>

definition send_finish :: "bool \<Rightarrow> tx_header \<Rightarrow> tx_header action" where
  "send_finish timed_out tx_header =
     seq idle (\<lambda>_.
     seq (write_u8 0x12 0xFF) (\<lambda>_.
     if timed_out then raise (RuntimeError ''Timeout during packet send'')
     else return tx_header))"

text \<open>
  \<^verbatim>\<open>send(data, timeout, tx_header)\<close>. The clock reading \<open>start\<close> and the observations
  \<open>polls\<close> are what the environment supplies to the polling loop; clock readings and the
  timeout are rationals. The result carries the header as the caller sees it afterwards.
\<close>

definition send :: "byte list \<Rightarrow> rat \<Rightarrow> tx_header \<Rightarrow> rat \<Rightarrow> (byte \<times> rat) list \<Rightarrow> tx_header run" where
  "send data timeout tx_header start polls =
     seq_run (lift (send_prepare data tx_header)) (\<lambda>tx_header.
     seq_run (wait_tx_done start timeout polls) (\<lambda>timed_out.
     lift (send_finish timed_out tx_header)))"

text \<open>
  The transmit-complete flag is bit 3 of the IRQ-flags register. It is never observed
  set within the timeout when every observation up to and including the first one
  whose clock reading has reached the timeout shows the bit clear.
\<close>

fun tx_done_never_seen :: "rat \<Rightarrow> rat \<Rightarrow> (byte \<times> rat) list \<Rightarrow> bool" where
  "tx_done_never_seen start timeout [] = False"
| "tx_done_never_seen start timeout ((irq, now) # rest) =
     (\<not> bit irq 3 \<and> (now - start \<ge> timeout \<or> tx_done_never_seen start timeout rest))"

section \<open>Receiving\<close>

datatype packet = Packet "int list" int rat







section \<open>The driver's own attributes\<close>

text \<open>
  Bus transfers change the chip and the transfer log only. \<open>same_attributes\<close> relates
  two states whose driver attributes agree; \<open>keeps\<close> says that an operation leaves them
  as they are.
\<close>

definition same_attributes :: "driver \<Rightarrow> driver \<Rightarrow> bool" where
  "same_attributes s s' \<longleftrightarrow>
     high_power s' = high_power s \<and>
     receive_filter_address s' = receive_filter_address s \<and>
     acks s' = acks s \<and>
     last_sent_id s' = last_sent_id s \<and>
     last_received_id s' = last_received_id s"

definition keeps :: "'a action \<Rightarrow> bool" where
  "keeps m \<longleftrightarrow> (\<forall>s. same_attributes s (snd (m s)))"

definition keeps_run :: "'a run \<Rightarrow> bool" where
  "keeps_run m \<longleftrightarrow> (\<forall>s r s'. m s = Some (r, s') \<longrightarrow> same_attributes s s')"

section \<open>A concrete state\<close>

text \<open>
  The driver as \<^verbatim>\<open>__init__\<close> leaves its own attributes (high power, broadcast filter,
  no acknowledgements, empty id tables), over a chip whose registers all read zero.
  It is the starting point of the concrete evaluations below.
\<close>

definition blank :: driver where
  "blank = \<lparr>regs = (\<lambda>_. 0), rx_fifo = (\<lambda>_. 0), spi_log = [], high_power = True,
     receive_filter_address = Some RH_BROADCAST_ADDRESS, acks = False,
     last_sent_id = Map.empty, last_received_id = Map.empty\<rparr>"


section \<open>Properties\<close>

subsection \<open>The bus and the bit fields\<close>

lemma mask_loop_eq: "mask_loop n m = push_bit n m OR mask n"
proof (induction n arbitrary: m)
  case 0
  show ?case by simp
next
  case (Suc n)
  show ?case
    apply (simp add: Suc)
    apply (rule bit_eqI)
    apply (auto simp: bit_simps bit_not_int_iff less_Suc_eq)
    done
qed

lemma bit_bounded:
  fixes v :: int
  assumes "0 \<le> v" "v < 2 ^ w" "bit v n"
  shows "n < w"
proof -
  have "take_bit w v = v" using assms by (simp add: take_bit_int_eq_self)
  then have "bit (take_bit w v) n" using assms by simp
  then show ?thesis by (simp add: bit_take_bit_iff)
qed

lemma is_byte_uint: "is_byte (uint (x :: byte))"
proof -
  have "uint x < 2 ^ 8" using uint_bounded [of x] by simp
  then show ?thesis by (simp add: is_byte_def)
qed

lemma is_byte_iff_take_bit: "is_byte v \<longleftrightarrow> take_bit 8 v = v"
proof
  assume "is_byte v"
  then show "take_bit 8 v = v" by (simp add: is_byte_def take_bit_int_eq_self)
next
  assume h: "take_bit 8 v = v"
  have "0 \<le> take_bit 8 v" and "take_bit 8 v < 2 ^ 8"
    using take_bit_int_less_exp [of 8 v] by simp_all
  then show "is_byte v" unfolding h by (simp add: is_byte_def)
qed

lemma uint_word_of_int_byte: "is_byte v \<Longrightarrow> uint (word_of_int v :: byte) = v"
  by (simp add: is_byte_iff_take_bit uint_word_of_int_eq)

lemma read_u8_eq:
  "read_u8 a s = (Inr (uint (regs s a)), s\<lparr>spi_log := spi_log s @ [[uint a, 0]]\<rparr>)"
  using is_byte_uint [of a]
  by (simp add: read_u8_def seq_def spi_xfer_def is_byte_def)

lemma write_u8_eq:
  "write_u8 a v s =
     (if is_byte v
      then (Inr (), s\<lparr>spi_log := spi_log s @ [[uint (a OR 0x80), v]],
                       regs := (regs s)(a := word_of_int v)\<rparr>)
      else (Inl ValueError, s))"
  using is_byte_uint [of "a OR 0x80"]
  by (simp add: write_u8_def seq_def spi_xfer_def)

lemma get_bits_eq:
  "get_bits f s =
     (Inr (drop_bit (offset_of f) (uint (regs s (address_of f)) AND mask_of f)),
      s\<lparr>spi_log := spi_log s @ [[uint (address_of f), 0]]\<rparr>)"
  by (simp add: get_bits_def seq_def read_u8_eq return_def)

lemma set_bits_eq:
  "set_bits f v s =
     (let s1 = s\<lparr>spi_log := spi_log s @ [[uint (address_of f), 0]]\<rparr>;
          new = set_value f (uint (regs s (address_of f))) v
      in if is_byte new
         then (Inr (), s1\<lparr>spi_log := spi_log s1 @ [[uint (address_of f OR 0x80), new]],
                           regs := (regs s)(address_of f := word_of_int new)\<rparr>)
         else (Inl ValueError, s1))"
  by (simp add: set_bits_def seq_def read_u8_eq write_u8_eq Let_def)

lemma RegisterBits_Inr:
  assumes "RegisterBits a off w = Inr f"
  shows "address_of f = a" "offset_of f = nat off"
    "mask_of f = push_bit (nat off) (mask (nat w))"
    "0 \<le> off" "1 \<le> w" "off + w \<le> 8"
  using assms
  by (auto simp: RegisterBits_def mask_loop_eq split: if_splits)

lemma field_value_fits:
  fixes v old :: int
  assumes "0 \<le> v" "v < 2 ^ w" "off + w \<le> 8" "is_byte old"
  shows "is_byte ((old AND NOT (push_bit off (mask w))) OR push_bit off (v AND 0xFF))"
proof -
  have m: "(255::int) = mask 8" by (simp add: mask_eq_exp_minus_1)
  have b: "\<And>n. bit v n \<Longrightarrow> n < w" using bit_bounded [OF assms(1,2)] .
  have o: "take_bit 8 old = old" using assms(4) by (simp add: is_byte_iff_take_bit)
  have ob: "\<And>n. bit old n \<Longrightarrow> n < 8"
  proof -
    fix n assume "bit old n"
    then have "bit (take_bit 8 old) n" by (simp add: o)
    then show "n < 8" by (simp add: bit_take_bit_iff)
  qed
  show ?thesis
    unfolding is_byte_iff_take_bit
    apply (rule bit_eqI)
    subgoal for n
      using assms(3) b [of "n - off"] ob [of n]
      by (auto simp: m bit_simps bit_not_int_iff)
    done
qed

lemma field_value_get:
  fixes v old :: int
  assumes "0 \<le> v" "v < 2 ^ w" "off + w \<le> 8"
  shows "drop_bit off (((old AND NOT (push_bit off (mask w))) OR push_bit off (v AND 0xFF))
           AND push_bit off (mask w)) = v"
proof -
  have m: "(255::int) = mask 8" by (simp add: mask_eq_exp_minus_1)
  have b: "\<And>n. bit v n \<Longrightarrow> n < w" using bit_bounded [OF assms(1,2)] .
  show ?thesis
    apply (rule bit_eqI)
    subgoal for n
      using assms(3) b [of n]
      by (auto simp: m bit_simps bit_not_int_iff)
    done
qed

lemma field_value_outside:
  fixes v old :: int
  assumes "0 \<le> v" "v < 2 ^ w"
  shows "((old AND NOT (push_bit off (mask w))) OR push_bit off (v AND 0xFF))
           AND NOT (push_bit off (mask w)) = old AND NOT (push_bit off (mask w))"
proof -
  have b: "\<And>n. bit v n \<Longrightarrow> n < w" using bit_bounded [OF assms(1,2)] .
  show ?thesis
    apply (rule bit_eqI)
    subgoal for n
      using b [of "n - off"]
      by (auto simp: bit_simps bit_not_int_iff)
    done
qed

lemma field_value_spec:
  fixes v old :: int
  assumes "0 \<le> v" "v < 2 ^ w" "off + w \<le> 8"
  shows "(old AND NOT (push_bit off (mask w))) OR push_bit off (v AND 0xFF)
       = (old AND NOT (push_bit off (mask w))) OR (push_bit off v AND push_bit off (mask w))"
proof -
  have m: "(255::int) = mask 8" by (simp add: mask_eq_exp_minus_1)
  have b: "\<And>n. bit v n \<Longrightarrow> n < w" using bit_bounded [OF assms(1,2)] .
  show ?thesis
    apply (rule bit_eqI)
    subgoal for n
      using assms(3) b [of "n - off"]
      by (auto simp: m bit_simps bit_not_int_iff)
    done
qed

lemma and_disjoint_mask:
  fixes x y g m :: int
  assumes "x AND NOT m = y AND NOT m" "g AND m = 0"
  shows "x AND g = y AND g"
proof (rule bit_eqI)
  fix n
  have a: "bit (x AND NOT m) n = bit (y AND NOT m) n" using assms(1) by simp
  have "bit (g AND m) n = bit (0::int) n" using assms(2) by simp
  then have b: "\<not> (bit g n \<and> bit m n)" by (simp add: bit_and_iff)
  show "bit (x AND g) n = bit (y AND g) n"
    using a b by (auto simp: bit_and_iff bit_not_int_iff)
qed

lemma set_bits_in_width:
  fixes s :: driver
  assumes f: "RegisterBits a off w = Inr f" and v: "0 \<le> v" "v < 2 ^ nat w"
  defines "new \<equiv> set_value f (uint (regs s a)) v"
  shows "set_bits f v s =
           (Inr (), s\<lparr>spi_log := spi_log s @ [[uint a, 0], [uint (a OR 0x80), new]],
                       regs := (regs s)(a := word_of_int new)\<rparr>)"
    and "uint (word_of_int new :: byte) = new"
    and "drop_bit (offset_of f) (new AND mask_of f) = v"
    and "new AND NOT (mask_of f) = uint (regs s a) AND NOT (mask_of f)"
    and "new = (uint (regs s a) AND NOT (mask_of f)) OR (push_bit (offset_of f) v AND mask_of f)"
proof -
  note fs = RegisterBits_Inr [OF f]
  have le: "nat off + nat w \<le> 8" using fs(4-6) by linarith
  have b: "is_byte new"
    unfolding new_def set_value_def fs
    by (rule field_value_fits [OF v le is_byte_uint])
  show "set_bits f v s =
           (Inr (), s\<lparr>spi_log := spi_log s @ [[uint a, 0], [uint (a OR 0x80), new]],
                       regs := (regs s)(a := word_of_int new)\<rparr>)"
    using b by (simp add: set_bits_eq fs(1) new_def [symmetric] Let_def)
  show "uint (word_of_int new :: byte) = new"
    using b by (rule uint_word_of_int_byte)
  show "drop_bit (offset_of f) (new AND mask_of f) = v"
    unfolding new_def set_value_def fs by (rule field_value_get [OF v le])
  show "new AND NOT (mask_of f) = uint (regs s a) AND NOT (mask_of f)"
    unfolding new_def set_value_def fs by (rule field_value_outside [OF v])
  show "new = (uint (regs s a) AND NOT (mask_of f)) OR (push_bit (offset_of f) v AND mask_of f)"
    unfolding new_def set_value_def fs by (rule field_value_spec [OF v le])
qed

lemma output_power_field: "RegisterBits 0x09 0 4 = Inr output_power"
  by (simp add: output_power_def RegisterBits_def)

lemma output_power_simps:
  "address_of output_power = 0x09" "offset_of output_power = 0" "mask_of output_power = 0x0F"
  using RegisterBits_Inr(1-3) [OF output_power_field] by (simp_all add: mask_eq_exp_minus_1)

lemma max_power_field: "RegisterBits 0x09 4 3 = Inr max_power"
  by (simp add: max_power_def RegisterBits_def)

lemma max_power_simps:
  "address_of max_power = 0x09" "offset_of max_power = 4" "mask_of max_power = 0x70"
  using RegisterBits_Inr(1-3) [OF max_power_field]
  by (simp_all add: mask_eq_exp_minus_1 push_bit_eq_mult)

lemma field_mask_bits:
  assumes "RegisterBits a off w = Inr f"
  shows "bit (mask_of f) n \<longleftrightarrow> nat off \<le> n \<and> n < nat off + nat w"
  unfolding RegisterBits_Inr(3) [OF assms]
  by (auto simp: bit_simps)

lemma fields_apart:
  assumes f: "RegisterBits a off w = Inr f" and g: "RegisterBits a' off' w' = Inr g"
    and apart: "off' + w' \<le> off \<or> off + w \<le> off'"
  shows "mask_of g AND mask_of f = 0"
proof (rule bit_eqI)
  fix n
  note rf = RegisterBits_Inr(4-6) [OF f] and rg = RegisterBits_Inr(4-6) [OF g]
  have "\<not> (bit (mask_of g) n \<and> bit (mask_of f) n)"
    unfolding field_mask_bits [OF f] field_mask_bits [OF g]
    using apart rf rg by linarith
  then show "bit (mask_of g AND mask_of f) n = bit (0::int) n"
    by (simp add: bit_and_iff)
qed

lemma value_fits_iff:
  fixes old x m :: int
  assumes "is_byte old" "0 \<le> x" "off \<le> 8"
  shows "is_byte ((old AND NOT m) OR push_bit off x) \<longleftrightarrow> x < 2 ^ (8 - off)"
proof
  assume b: "is_byte ((old AND NOT m) OR push_bit off x)"
  have o: "0 \<le> old AND NOT m" using assms(1) by (simp add: is_byte_def)
  have p: "0 \<le> push_bit off x" using assms(2) by simp
  have "push_bit off x \<le> (old AND NOT m) OR push_bit off x"
    using o p by (metis or.commute or_greater_eq)
  then have "push_bit off x < 2 ^ 8" using b by (simp add: is_byte_def)
  then have "x * 2 ^ off < 2 ^ (8 - off) * 2 ^ off"
    using assms(3) by (simp add: push_bit_eq_mult power_add [symmetric])
  then show "x < 2 ^ (8 - off)" by simp
next
  assume x: "x < 2 ^ (8 - off)"
  have b: "\<And>n. bit x n \<Longrightarrow> n < 8 - off" using bit_bounded [OF assms(2) x] .
  have ot: "take_bit 8 old = old" using assms(1) by (simp add: is_byte_iff_take_bit)
  have ob: "\<And>n. bit old n \<Longrightarrow> n < 8"
  proof -
    fix n assume "bit old n"
    then have "bit (take_bit 8 old) n" by (simp add: ot)
    then show "n < 8" by (simp add: bit_take_bit_iff)
  qed
  show "is_byte ((old AND NOT m) OR push_bit off x)"
    unfolding is_byte_iff_take_bit
    apply (rule bit_eqI)
    subgoal for n
      using assms(3) b [of "n - off"] ob [of n]
      by (auto simp: bit_simps bit_not_int_iff)
    done
qed

text \<open>
  C3. For every bit field \<open>(register, offset, width)\<close> with \<open>offset + width \<le> 8\<close>
  and every value \<open>0 \<le> v < 2 ^ width\<close>: the constructor gives the field over that
  register whose mask is exactly the bits \<open>offset, ..., offset + width - 1\<close>; setting the
  field to \<open>v\<close> succeeds; reading the field afterwards returns \<open>v\<close>; every bit of the
  register outside those positions keeps its value and every other register is
  unchanged; so any other field over the same register whose bit positions do not
  overlap, and more generally any field whose mask is disjoint, reads as it did before.
\<close>

theorem bit_field_round_trip:
  assumes "0 \<le> off" "1 \<le> w" "off + w \<le> 8" "0 \<le> v" "v < 2 ^ nat w"
  shows "\<exists>f s'. RegisterBits a off w = Inr f \<and>
           address_of f = a \<and> offset_of f = nat off \<and>
           mask_of f = push_bit (nat off) (mask (nat w)) \<and>
           (\<forall>n. bit (mask_of f) n \<longleftrightarrow> nat off \<le> n \<and> n < nat off + nat w) \<and>
           set_bits f v s = (Inr (), s') \<and>
           fst (get_bits f s') = Inr v \<and>
           (\<forall>n. \<not> (nat off \<le> n \<and> n < nat off + nat w) \<longrightarrow>
                 bit (regs s' a) n = bit (regs s a) n) \<and>
           uint (regs s' a) AND NOT (mask_of f) = uint (regs s a) AND NOT (mask_of f) \<and>
           (\<forall>r. r \<noteq> a \<longrightarrow> regs s' r = regs s r) \<and>
           (\<forall>off' w' g. RegisterBits a off' w' = Inr g \<and> (off' + w' \<le> off \<or> off + w \<le> off') \<longrightarrow>
                 fst (get_bits g s') = fst (get_bits g s)) \<and>
           (\<forall>g::register_bits. address_of g = a \<and> mask_of g AND mask_of f = 0 \<longrightarrow>
                 fst (get_bits g s') = fst (get_bits g s))"
proof -
  obtain f where f: "RegisterBits a off w = Inr f"
    using assms(1-3) by (simp add: RegisterBits_def)
  note fs = RegisterBits_Inr [OF f]
  note sb = set_bits_in_width [OF f assms(4,5), of s]
  define new where "new = set_value f (uint (regs s a)) v"
  define s' where "s' = s\<lparr>spi_log := spi_log s @ [[uint a, 0], [uint (a OR 0x80), new]],
                       regs := (regs s)(a := word_of_int new)\<rparr>"
  have r: "uint (regs s' a) = new" using sb(2) by (simp add: s'_def new_def)
  have mb: "\<forall>n. bit (mask_of f) n \<longleftrightarrow> nat off \<le> n \<and> n < nat off + nat w"
    using field_mask_bits [OF f] by blast
  have 1: "set_bits f v s = (Inr (), s')" using sb(1) by (simp add: s'_def new_def)
  have 2: "fst (get_bits f s') = Inr v"
    using sb(3) by (simp add: get_bits_eq fs(1) r new_def)
  have 3: "uint (regs s' a) AND NOT (mask_of f) = uint (regs s a) AND NOT (mask_of f)"
    using sb(4) by (simp add: r new_def)
  have outside: "\<forall>n. \<not> (nat off \<le> n \<and> n < nat off + nat w) \<longrightarrow>
                 bit (regs s' a) n = bit (regs s a) n"
  proof (intro allI impI)
    fix n assume out: "\<not> (nat off \<le> n \<and> n < nat off + nat w)"
    then have nm: "\<not> bit (mask_of f) n" using mb by blast
    have "bit (uint (regs s' a) AND NOT (mask_of f)) n
            = bit (uint (regs s a) AND NOT (mask_of f)) n"
      using 3 by simp
    then have "bit (uint (regs s' a)) n = bit (uint (regs s a)) n"
      using nm by (simp add: bit_and_iff bit_not_int_iff)
    then show "bit (regs s' a) n = bit (regs s a) n"
      using bit_imp_le_length [of "regs s' a" n] bit_imp_le_length [of "regs s a" n]
      by (auto simp: bit_uint_iff)
  qed
  have 4: "\<forall>r. r \<noteq> a \<longrightarrow> regs s' r = regs s r" by (simp add: s'_def)
  have 5: "\<forall>g::register_bits. address_of g = a \<and> mask_of g AND mask_of f = 0 \<longrightarrow>
                 fst (get_bits g s') = fst (get_bits g s)"
  proof (intro allI impI)
    fix g :: register_bits assume g: "address_of g = a \<and> mask_of g AND mask_of f = 0"
    have "uint (regs s' a) AND mask_of g = uint (regs s a) AND mask_of g"
      using and_disjoint_mask [OF 3] g by simp
    then show "fst (get_bits g s') = fst (get_bits g s)"
      using g by (simp add: get_bits_eq)
  qed
  have 6: "\<forall>off' w' g. RegisterBits a off' w' = Inr g \<and> (off' + w' \<le> off \<or> off + w \<le> off') \<longrightarrow>
                 fst (get_bits g s') = fst (get_bits g s)"
  proof (intro allI impI)
    fix off' w' g
    assume h: "RegisterBits a off' w' = Inr g \<and> (off' + w' \<le> off \<or> off + w \<le> off')"
    then have "address_of g = a \<and> mask_of g AND mask_of f = 0"
      using fields_apart [OF f, of a off' w' g] RegisterBits_Inr(1) [of a off' w' g] by blast
    then show "fst (get_bits g s') = fst (get_bits g s)" using 5 by blast
  qed
  show ?thesis
    by (intro exI [of _ f] exI [of _ s'] conjI f fs(1,2,3) mb 1 2 outside 3 4 6 5)
qed

theorem bit_field_round_trip_witness:
  "(0::int) \<le> 0 \<and> (1::int) \<le> 4 \<and> (0::int) + 4 \<le> 8 \<and> (0::int) \<le> 9 \<and> (9::int) < 2 ^ nat 4 \<and>
   (\<exists>f s'. RegisterBits 0x09 0 4 = Inr f \<and> mask_of f = 0x0F \<and>
           set_bits f 9 (blank\<lparr>regs := (\<lambda>_. 0xA5)\<rparr>) = (Inr (), s') \<and>
           fst (get_bits f s') = Inr 9 \<and>
           uint (regs s' 0x09) = 0xA9 \<and>
           fst (get_bits max_power s') = Inr 2 \<and>
           fst (get_bits max_power (blank\<lparr>regs := (\<lambda>_. 0xA5)\<rparr>)) = Inr 2)"
proof -
  let ?S = "blank\<lparr>regs := (\<lambda>_. 0xA5)\<rparr>"
  obtain f s' where h: "RegisterBits 0x09 0 4 = Inr f" "mask_of f = push_bit (nat 0) (mask (nat 4))"
    "set_bits f 9 ?S = (Inr (), s')" "fst (get_bits f s') = Inr 9"
    "\<forall>off' w' g. RegisterBits 0x09 off' w' = Inr g \<and> (off' + w' \<le> 0 \<or> 0 + 4 \<le> off') \<longrightarrow>
          fst (get_bits g s') = fst (get_bits g ?S)"
    using bit_field_round_trip [of 0 4 9 "0x09" ?S] by auto
  have fo: "f = output_power" using h(1) by (simp add: output_power_field)
  have m: "mask_of f = 0x0F" using h(2) by (simp add: mask_eq_exp_minus_1)
  have mp: "RegisterBits 0x09 4 3 = Inr max_power"
    by (simp add: max_power_def RegisterBits_def)
  have g0: "fst (get_bits max_power ?S) = Inr 2"
    using RegisterBits_Inr(1-3) [OF mp]
    by (simp add: get_bits_eq mask_eq_exp_minus_1 blank_def)
  have g1: "fst (get_bits max_power s') = Inr 2"
    using h(5) mp g0 by force
  have "s' = snd (set_bits output_power 9 ?S)" using h(3) fo by simp
  then have r: "uint (regs s' 0x09) = 0xA9"
    by (simp add: set_bits_eq set_value_def output_power_simps Let_def is_byte_def)
  show ?thesis using h(1,3,4) m r g0 g1 by auto
qed

subsection \<open>What a field write stores\<close>

text \<open>
  C4 as stated fails. The output-power field has offset 0 and width 4. Writing the value
  \<open>0x1F\<close>, which does not fit, over a register that reads zero stores \<open>0x1F\<close>: the value is
  cut to a byte, not to the field's mask, so bit 4 (of the neighbouring field) is set.
  The claim's formula gives \<open>0x0F\<close>.
\<close>

theorem set_bits_mask_counterexample:
  "regs (snd (set_bits output_power 0x1F blank)) 0x09 = 0x1F \<and>
   (uint (regs blank 0x09) AND NOT (mask_of output_power))
      OR (push_bit (offset_of output_power) 0x1F AND mask_of output_power) = 0x0F"
  by (simp add: set_bits_eq set_value_def output_power_simps blank_def is_byte_def Let_def)

text \<open>
  C4, amended. For every field that \<^verbatim>\<open>_RegisterBits\<close> constructs and every value \<open>v\<close>, the
  write reads the register, clears the field's mask and ORs in the value cut to a byte
  (not to the field's mask) and shifted: it hands
  \<open>new = (old AND NOT mask) OR ((v AND 0xFF) << offset)\<close> to the bus. That value is a byte
  exactly when \<open>(v AND 0xFF) < 2 ^ (8 - offset)\<close>. In that case the write succeeds, the two
  transfers are the read and the write of \<open>new\<close>, \<open>new\<close> becomes the content of the register
  and no other register changes. In the other case nothing is written back: the transfer
  raises \<^verbatim>\<open>ValueError\<close>, only the read is on the bus and no register changes. For
  \<open>0 \<le> v < 2 ^ width\<close> the value is a byte and equals
  \<open>(old AND NOT mask) OR ((v << offset) AND mask)\<close>.
\<close>

theorem set_bits_writes:
  assumes "RegisterBits a off w = Inr f"
  shows "(is_byte ((uint (regs s a) AND NOT (mask_of f)) OR push_bit (offset_of f) (v AND 0xFF))
            \<longleftrightarrow> (v AND 0xFF) < 2 ^ (8 - offset_of f)) \<and>
         (is_byte ((uint (regs s a) AND NOT (mask_of f)) OR push_bit (offset_of f) (v AND 0xFF)) \<longrightarrow>
            fst (set_bits f v s) = Inr () \<and>
            uint (regs (snd (set_bits f v s)) a)
              = (uint (regs s a) AND NOT (mask_of f)) OR push_bit (offset_of f) (v AND 0xFF) \<and>
            (\<forall>r. r \<noteq> a \<longrightarrow> regs (snd (set_bits f v s)) r = regs s r) \<and>
            spi_log (snd (set_bits f v s))
              = spi_log s @ [[uint a, 0],
                   [uint (a OR 0x80),
                    (uint (regs s a) AND NOT (mask_of f)) OR push_bit (offset_of f) (v AND 0xFF)]]) \<and>
         (\<not> is_byte ((uint (regs s a) AND NOT (mask_of f)) OR push_bit (offset_of f) (v AND 0xFF)) \<longrightarrow>
            fst (set_bits f v s) = Inl ValueError \<and> regs (snd (set_bits f v s)) = regs s \<and>
            spi_log (snd (set_bits f v s)) = spi_log s @ [[uint a, 0]]) \<and>
         (0 \<le> v \<and> v < 2 ^ nat w \<longrightarrow>
            is_byte ((uint (regs s a) AND NOT (mask_of f)) OR push_bit (offset_of f) (v AND 0xFF)) \<and>
            (uint (regs s a) AND NOT (mask_of f)) OR push_bit (offset_of f) (v AND 0xFF)
              = (uint (regs s a) AND NOT (mask_of f)) OR (push_bit (offset_of f) v AND mask_of f))"
proof -
  note fs = RegisterBits_Inr [OF assms]
  define new where "new = (uint (regs s a) AND NOT (mask_of f)) OR push_bit (offset_of f) (v AND 0xFF)"
  have sv: "set_value f (uint (regs s a)) v = new" by (simp add: set_value_def new_def)
  have o8: "offset_of f \<le> 8" using fs(2,4-6) by linarith
  have 0: "is_byte new \<longleftrightarrow> (v AND 0xFF) < 2 ^ (8 - offset_of f)"
    unfolding new_def by (rule value_fits_iff [OF is_byte_uint _ o8]) simp
  have 1: "is_byte new \<longrightarrow> fst (set_bits f v s) = Inr () \<and>
            uint (regs (snd (set_bits f v s)) a) = new \<and>
            (\<forall>r. r \<noteq> a \<longrightarrow> regs (snd (set_bits f v s)) r = regs s r) \<and>
            spi_log (snd (set_bits f v s)) = spi_log s @ [[uint a, 0], [uint (a OR 0x80), new]]"
    by (simp add: set_bits_eq fs(1) sv Let_def uint_word_of_int_byte)
  have 2: "\<not> is_byte new \<longrightarrow> fst (set_bits f v s) = Inl ValueError \<and> regs (snd (set_bits f v s)) = regs s \<and>
            spi_log (snd (set_bits f v s)) = spi_log s @ [[uint a, 0]]"
    by (simp add: set_bits_eq fs(1) sv Let_def)
  have 3: "0 \<le> v \<and> v < 2 ^ nat w \<longrightarrow> is_byte new \<and>
            new = (uint (regs s a) AND NOT (mask_of f)) OR (push_bit (offset_of f) v AND mask_of f)"
  proof
    assume v: "0 \<le> v \<and> v < 2 ^ nat w"
    have le: "nat off + nat w \<le> 8" using fs(4-6) by linarith
    have "is_byte new"
      unfolding new_def fs using v by (intro field_value_fits [OF _ _ le is_byte_uint]) simp_all
    moreover have "new = (uint (regs s a) AND NOT (mask_of f)) OR (push_bit (offset_of f) v AND mask_of f)"
      unfolding new_def fs using v by (intro field_value_spec [OF _ _ le]) simp_all
    ultimately show "is_byte new \<and>
            new = (uint (regs s a) AND NOT (mask_of f)) OR (push_bit (offset_of f) v AND mask_of f)"
      by simp
  qed
  show ?thesis using 0 1 2 3 unfolding new_def by blast
qed

theorem set_bits_writes_witness:
  "RegisterBits 0x09 0 4 = Inr output_power \<and>
   is_byte ((uint (regs blank 0x09) AND NOT (mask_of output_power))
              OR push_bit (offset_of output_power) (0x1F AND 0xFF)) \<and>
   fst (set_bits output_power 0x1F blank) = Inr () \<and>
   uint (regs (snd (set_bits output_power 0x1F blank)) 0x09) = 0x1F \<and>
   RegisterBits 0x09 4 3 = Inr max_power \<and>
   (uint (regs (blank\<lparr>regs := (\<lambda>_. 0x0F)\<rparr>) 0x09) AND NOT (mask_of max_power))
      OR push_bit (offset_of max_power) (0xFF AND 0xFF) = 0xFFF \<and>
   fst (set_bits max_power 0xFF (blank\<lparr>regs := (\<lambda>_. 0x0F)\<rparr>)) = Inl ValueError \<and>
   regs (snd (set_bits max_power 0xFF (blank\<lparr>regs := (\<lambda>_. 0x0F)\<rparr>))) 0x09 = 0x0F"
  using set_bits_writes [OF output_power_field, of blank "0x1F"]
    set_bits_writes [OF max_power_field, of "blank\<lparr>regs := (\<lambda>_. 0x0F)\<rparr>" "0xFF"]
  by (simp add: output_power_field output_power_simps max_power_field max_power_simps
        blank_def is_byte_def)

subsection \<open>Signal bandwidth\<close>

lemma bw_search_none:
  "\<forall>x \<in> set xs. x < v \<Longrightarrow> bw_search v k xs = 9"
  by (induction xs arbitrary: k) auto

lemma bw_search_first:
  assumes "\<exists>x \<in> set xs. v \<le> x"
  shows "k \<le> bw_search v k xs \<and> bw_search v k xs < k + int (length xs) \<and>
         v \<le> xs ! nat (bw_search v k xs - k) \<and>
         (\<forall>j < nat (bw_search v k xs - k). xs ! j < v)"
  using assms
proof (induction xs arbitrary: k)
  case Nil
  then show ?case by simp
next
  case (Cons x xs)
  show ?case
  proof (cases "v \<le> x")
    case True
    then show ?thesis by simp
  next
    case False
    then have ex: "\<exists>x \<in> set xs. v \<le> x" using Cons.prems by auto
    note ih = Cons.IH [OF ex, of "k + 1"]
    have n: "nat (bw_search v (k + 1) xs - k) = Suc (nat (bw_search v (k + 1) xs - (k + 1)))"
      using ih by linarith
    show ?thesis
      using False ih by (auto simp: n less_Suc_eq_0_disj)
  qed
qed

lemma bw_bins_above: "(\<exists>x \<in> set bw_bins. v \<le> x) \<longleftrightarrow> v \<le> 250000"
  by (auto simp: bw_bins_def)

lemma bw_nibble:
  fixes r i :: int
  assumes "0 \<le> i" "i < 16"
  shows "is_byte ((r AND 0x0f) OR push_bit 4 i)"
    and "drop_bit 4 (((r AND 0x0f) OR push_bit 4 i) AND 0xf0) = i"
    and "((r AND 0x0f) OR push_bit 4 i) AND 0x0f = r AND 0x0f"
    and "drop_bit 4 ((r AND 0x0f) OR push_bit 4 i) = i"
proof -
  have m: "(15::int) = mask 4" "(240::int) = push_bit 4 (mask 4)"
    by (simp_all add: mask_eq_exp_minus_1)
  have b: "\<And>n. bit i n \<Longrightarrow> n < 4"
    using bit_bounded [of i 4] assms by simp
  show "is_byte ((r AND 0x0f) OR push_bit 4 i)"
    unfolding is_byte_iff_take_bit
    apply (rule bit_eqI)
    subgoal for n using b [of "n - 4"] by (auto simp: m bit_simps)
    done
  show "drop_bit 4 (((r AND 0x0f) OR push_bit 4 i) AND 0xf0) = i"
    apply (rule bit_eqI)
    subgoal for n using b [of n] by (auto simp: m bit_simps)
    done
  show "((r AND 0x0f) OR push_bit 4 i) AND 0x0f = r AND 0x0f"
    apply (rule bit_eqI)
    subgoal for n by (auto simp: m bit_simps)
    done
  show "drop_bit 4 ((r AND 0x0f) OR push_bit 4 i) = i"
    apply (rule bit_eqI)
    subgoal for n by (auto simp: m bit_simps)
    done
qed

text \<open>
  C5. For every requested value \<open>v\<close> the setter's search returns the index of the first,
  hence smallest, bin of the ordered table that is at least \<open>v\<close>, and 9 when \<open>v\<close> is above
  every bin. The setter stores that index in the high half of the modem-configuration
  register and keeps the low half, so the getter then reports the selected bin, or
  500000 for index 9. A request of 100000 selects the 125000 bin and a request of
  1000000 selects index 9.
\<close>

theorem signal_bandwidth_selects:
  "(v \<le> 250000 \<longrightarrow>
      0 \<le> bw_search v 0 bw_bins \<and> bw_search v 0 bw_bins < 9 \<and>
      v \<le> bw_bins ! nat (bw_search v 0 bw_bins) \<and>
      (\<forall>j < nat (bw_search v 0 bw_bins). bw_bins ! j < v)) \<and>
   (250000 < v \<longrightarrow> bw_search v 0 bw_bins = 9) \<and>
   fst (signal_bandwidth_set v s) = Inr () \<and>
   drop_bit 4 (uint (regs (snd (signal_bandwidth_set v s)) 0x1d)) = bw_search v 0 bw_bins \<and>
   uint (regs (snd (signal_bandwidth_set v s)) 0x1d) AND 0x0f = uint (regs s 0x1d) AND 0x0f \<and>
   fst (signal_bandwidth (snd (signal_bandwidth_set v s)))
     = Inr (if bw_search v 0 bw_bins = 9 then 500000 else bw_bins ! nat (bw_search v 0 bw_bins)) \<and>
   bw_search 100000 0 bw_bins = 7 \<and> bw_bins ! 7 = 125000 \<and>
   bw_search 1000000 0 bw_bins = 9"
proof -
  define i where "i = bw_search v 0 bw_bins"
  have low: "v \<le> 250000 \<longrightarrow> 0 \<le> i \<and> i < 9 \<and> v \<le> bw_bins ! nat i \<and> (\<forall>j < nat i. bw_bins ! j < v)"
  proof
    assume "v \<le> 250000"
    then have "\<exists>x \<in> set bw_bins. v \<le> x" by (simp only: bw_bins_above)
    from bw_search_first [OF this, of 0]
    show "0 \<le> i \<and> i < 9 \<and> v \<le> bw_bins ! nat i \<and> (\<forall>j < nat i. bw_bins ! j < v)"
      by (simp add: i_def) (simp add: bw_bins_def)
  qed
  have high: "250000 < v \<longrightarrow> i = 9"
  proof
    assume "250000 < v"
    then have "\<forall>x \<in> set bw_bins. x < v" by (auto simp: bw_bins_def)
    then show "i = 9" unfolding i_def by (rule bw_search_none)
  qed
  have rng: "0 \<le> i" "i < 16" using low high by (cases "v \<le> 250000"; simp)+
  define r where "r = uint (regs s 0x1d)"
  define new where "new = (r AND 0x0f) OR push_bit 4 i"
  note nb = bw_nibble [OF rng, of r, folded new_def]
  have set_eq: "signal_bandwidth_set v s =
      (Inr (), s\<lparr>spi_log := spi_log s @ [[0x1d, 0], [0x9d, new]],
                  regs := (regs s)(0x1d := word_of_int new)\<rparr>)"
    using nb(1)
    by (simp add: signal_bandwidth_set_def Let_def seq_def read_u8_eq write_u8_eq
        i_def [symmetric] r_def [symmetric] new_def [symmetric])
  have rd: "uint (regs (snd (signal_bandwidth_set v s)) 0x1d) = new"
    using nb(1) by (simp add: set_eq uint_word_of_int_byte)
  have d4: "drop_bit 4 new = i" by (rule nb(4))
  have d4': "drop_bit 4 new AND 15 = i" using nb(2) by simp
  have get: "fst (signal_bandwidth (snd (signal_bandwidth_set v s)))
     = Inr (if i = 9 then 500000 else bw_bins ! nat i)"
  proof -
    have "fst (signal_bandwidth (snd (signal_bandwidth_set v s)))
       = fst ((if i \<ge> int (length bw_bins) then return 500000 else return (bw_bins ! nat i))
               ((snd (signal_bandwidth_set v s))\<lparr>spi_log := spi_log (snd (signal_bandwidth_set v s)) @ [[0x1d, 0]]\<rparr>))"
      by (simp add: signal_bandwidth_def seq_def read_u8_eq rd d4' Let_def)
    also have "\<dots> = Inr (if i = 9 then 500000 else bw_bins ! nat i)"
      using low high by (cases "v \<le> 250000") (auto simp: return_def bw_bins_def)
    finally show ?thesis .
  qed
  have ex: "bw_search 100000 0 bw_bins = 7" "bw_bins ! 7 = 125000" "bw_search 1000000 0 bw_bins = 9"
    by (simp_all add: bw_bins_def)
  show ?thesis
    using low high set_eq rd d4 nb(3) get ex
    unfolding i_def [symmetric] r_def [symmetric] by simp
qed

theorem signal_bandwidth_selects_witness:
  "(100000::int) \<le> 250000 \<and> bw_search 100000 0 bw_bins = 7 \<and>
   bw_bins ! 6 < 100000 \<and>
   fst (signal_bandwidth (snd (signal_bandwidth_set 100000 blank))) = Inr 125000"
  using signal_bandwidth_selects [of 100000 blank]
  by (simp add: bw_bins_def)

subsection \<open>Transmit power\<close>

lemma pa_dac_field: "RegisterBits 0x4d 0 3 = Inr pa_dac"
  by (simp add: pa_dac_def RegisterBits_def)

lemma pa_select_field: "RegisterBits 0x09 7 1 = Inr pa_select"
  by (simp add: pa_select_def RegisterBits_def)

lemma pa_dac_simps:
  "address_of pa_dac = 0x4d" "offset_of pa_dac = 0" "mask_of pa_dac = 0x07"
  using RegisterBits_Inr(1-3) [OF pa_dac_field] by (simp_all add: mask_eq_exp_minus_1)

lemma and_15_id:
  fixes x :: int
  assumes "0 \<le> x" "x \<le> 15"
  shows "x AND 0x0F = x"
proof -
  have "x AND mask 4 = x"
    using assms by (simp add: take_bit_eq_mask [symmetric] take_bit_int_eq_self)
  then show ?thesis by (simp add: mask_eq_exp_minus_1)
qed

lemma set_bits_frame:
  "high_power (snd (set_bits f v s)) = high_power s"
  "receive_filter_address (snd (set_bits f v s)) = receive_filter_address s"
  "acks (snd (set_bits f v s)) = acks s"
  "last_sent_id (snd (set_bits f v s)) = last_sent_id s"
  "last_received_id (snd (set_bits f v s)) = last_received_id s"
  "rx_fifo (snd (set_bits f v s)) = rx_fifo s"
  by (simp_all add: set_bits_eq Let_def)

text \<open>
  The three field writes of the high-power branch, for a boost setting \<open>d\<close> and a stored
  power \<open>p\<close>.
\<close>

lemma high_power_writes:
  fixes s :: driver
  assumes d: "0 \<le> d" "d < 8" and p: "0 \<le> p" "p \<le> 15"
  shows "\<exists>s'. seq (set_bits pa_dac d) (\<lambda>_.
              seq (set_bits pa_select 1) (\<lambda>_. set_bits output_power p)) s = (Inr (), s') \<and>
           fst (get_bits pa_dac s') = Inr d \<and> fst (get_bits output_power s') = Inr p \<and>
           fst (get_bits pa_select s') = Inr 1 \<and>
           high_power s' = high_power s"
proof -
  have d': "d < 2 ^ nat 3" using d by simp
  have p': "p < 2 ^ nat 4" using p by simp
  have o': "(1::int) < 2 ^ nat 1" by simp
  note w1 = set_bits_in_width [OF pa_dac_field d(1) d', of s]
  define s1 where "s1 = snd (set_bits pa_dac d s)"
  have e1: "set_bits pa_dac d s = (Inr (), s1)" by (simp add: s1_def w1(1))
  note w2 = set_bits_in_width [OF pa_select_field _ o', of s1, simplified]
  define s2 where "s2 = snd (set_bits pa_select 1 s1)"
  have e2: "set_bits pa_select 1 s1 = (Inr (), s2)" by (simp add: s2_def w2(1))
  note w3 = set_bits_in_width [OF output_power_field p(1) p', of s2]
  define s3 where "s3 = snd (set_bits output_power p s2)"
  have e3: "set_bits output_power p s2 = (Inr (), s3)" by (simp add: s3_def w3(1))
  have run: "seq (set_bits pa_dac d) (\<lambda>_.
              seq (set_bits pa_select 1) (\<lambda>_. set_bits output_power p)) s = (Inr (), s3)"
    by (simp add: seq_def e1 e2 e3)
  have r1: "uint (regs s1 0x4d) = set_value pa_dac (uint (regs s 0x4d)) d"
    using w1(2) by (simp add: s1_def w1(1))
  have r2: "uint (regs s2 0x09) = set_value pa_select (uint (regs s1 0x09)) 1"
    "regs s2 0x4d = regs s1 0x4d"
    using w2(2) by (simp_all add: s2_def w2(1))
  have r3: "uint (regs s3 0x09) = set_value output_power (uint (regs s2 0x09)) p"
    "regs s3 0x4d = regs s2 0x4d"
    using w3(2) by (simp_all add: s3_def w3(1))
  have g1: "fst (get_bits pa_dac s3) = Inr d"
    using w1(3) by (simp add: get_bits_eq pa_dac_simps r3(2) r2(2) r1)
  have g3: "fst (get_bits output_power s3) = Inr p"
    using w3(3) by (simp add: get_bits_eq output_power_simps r3(1))
  have sel: "uint (regs s3 0x09) AND mask_of pa_select = uint (regs s2 0x09) AND mask_of pa_select"
  proof (rule and_disjoint_mask)
    show "uint (regs s3 9) AND NOT (mask_of output_power) = uint (regs s2 9) AND NOT (mask_of output_power)"
      using w3(4) by (simp add: r3(1))
    show "mask_of pa_select AND mask_of output_power = 0"
      using RegisterBits_Inr(3) [OF pa_select_field]
      by (simp add: output_power_simps mask_eq_exp_minus_1)
  qed
  have g2: "fst (get_bits pa_select s3) = Inr 1"
    using w2(3) RegisterBits_Inr(1,2) [OF pa_select_field]
    by (simp add: get_bits_eq sel r2(1))
  have hp: "high_power s3 = high_power s"
    by (simp add: s3_def s2_def s1_def set_bits_frame)
  show ?thesis using run g1 g2 g3 hp by blast
qed

lemma py_int_floor: "0 \<le> x \<Longrightarrow> py_int x = \<lfloor>x\<rfloor>"
  by (simp add: py_int_def)

lemma py_int_of_int: "py_int (of_int k) = k"
  by (simp add: py_int_def)

text \<open>
  C6 as stated fails for a value that is not a whole number. The power \<open>20.5\<close> lies in
  \<open>[5, 23]\<close> and is greater than 20, but the setter first truncates it to 20: the boost
  stays disabled (PA-DAC field \<open>0x04\<close>) and the output-power field holds \<open>20 - 5 = 15\<close>,
  not \<open>20.5 - 3 - 5\<close>.
\<close>

theorem tx_power_boost_counterexample:
  "high_power blank \<and> (5::rat) \<le> 41 / 2 \<and> (41 / 2 :: rat) \<le> 23 \<and> (20::rat) < 41 / 2 \<and>
   fst (tx_power_set (41 / 2) blank) = Inr () \<and>
   fst (get_bits pa_dac (snd (tx_power_set (41 / 2) blank))) = Inr RH_RF95_PA_DAC_DISABLE \<and>
   fst (get_bits output_power (snd (tx_power_set (41 / 2) blank))) = Inr 15 \<and>
   (41 / 2 - 3 - 5 :: rat) \<noteq> 15"
  by code_simp

text \<open>
  C6, amended. On a high-power driver and for every value \<open>5 \<le> v < 24\<close>, the setter
  works on the truncation \<open>k = int(v)\<close>, which lies in \<open>[5, 23]\<close> and is \<open>v\<close> itself when
  \<open>v\<close> is a whole number, and succeeds. If \<open>k > 20\<close> the PA-DAC field then reads \<open>0x07\<close>
  (boost enabled) and the output-power field reads \<open>k - 3 - 5\<close>; otherwise the PA-DAC
  field reads \<open>0x04\<close> (boost disabled) and the output-power field reads \<open>k - 5\<close>. The
  getter returns the stored value plus 5.
\<close>

theorem tx_power_high_power:
  assumes "high_power s" "5 \<le> v" "v < 24"
  shows "5 \<le> py_int v \<and> py_int v \<le> 23 \<and>
         (v \<in> \<int> \<longrightarrow> of_int (py_int v) = v) \<and>
         (\<exists>s'. tx_power_set v s = (Inr (), s') \<and>
           fst (get_bits pa_dac s')
             = Inr (if py_int v > 20 then RH_RF95_PA_DAC_ENABLE else RH_RF95_PA_DAC_DISABLE) \<and>
           fst (get_bits output_power s')
             = Inr (if py_int v > 20 then py_int v - 3 - 5 else py_int v - 5) \<and>
           fst (tx_power s') = Inr ((if py_int v > 20 then py_int v - 3 - 5 else py_int v - 5) + 5))"
proof -
  define k where "k = py_int v"
  have kf: "k = \<lfloor>v\<rfloor>" using assms(2) by (simp add: k_def py_int_floor)
  have k5: "5 \<le> k" unfolding kf using assms(2) by (simp add: le_floor_iff)
  have "k < 24" unfolding kf using assms(3) by (simp add: floor_less_iff)
  then have k23: "k \<le> 23" by simp
  have whole: "v \<in> \<int> \<longrightarrow> of_int k = v"
  proof
    assume "v \<in> \<int>"
    then obtain j :: int where "v = of_int j" by (auto elim: Ints_cases)
    then show "of_int k = v" by (simp add: k_def py_int_of_int)
  qed
  define d :: int where "d = (if k > 20 then 7 else 4)"
  define p :: int where "p = (if k > 20 then k - 3 - 5 else k - 5)"
  have d: "0 \<le> d" "d < 8" by (simp_all add: d_def)
  have p: "0 \<le> p" "p \<le> 15" using k5 k23 by (simp_all add: p_def)
  obtain s' where s': "seq (set_bits pa_dac d) (\<lambda>_.
              seq (set_bits pa_select 1) (\<lambda>_. set_bits output_power p)) s = (Inr (), s')"
    "fst (get_bits pa_dac s') = Inr d" "fst (get_bits output_power s') = Inr p"
    "high_power s' = high_power s"
    using high_power_writes [OF d p, of s] by blast
  have set: "tx_power_set v s = (Inr (), s')"
  proof (cases "k > 20")
    case True
    have pm': "k - 8 AND 15 = p" using and_15_id [OF p] True by (simp add: p_def)
    show ?thesis
      using assms(1) k5 k23 True s'(1)
      by (simp add: tx_power_set_def Let_def k_def [symmetric] d_def seq_def return_def pm'
          split: prod.splits sum.splits)
  next
    case False
    have pm': "k - 5 AND 15 = p" using and_15_id [OF p] False by (simp add: p_def)
    show ?thesis
      using assms(1) k5 k23 False s'(1)
      by (simp add: tx_power_set_def Let_def k_def [symmetric] d_def seq_def return_def pm'
          split: prod.splits sum.splits)
  qed
  have get: "fst (tx_power s') = Inr (p + 5)"
    using s'(3,4) assms(1)
    by (simp add: tx_power_def seq_def return_def get_bits_eq)
  have ex: "\<exists>s'. tx_power_set v s = (Inr (), s') \<and>
           fst (get_bits pa_dac s') = Inr (if k > 20 then 7 else 4) \<and>
           fst (get_bits output_power s') = Inr (if k > 20 then k - 3 - 5 else k - 5) \<and>
           fst (tx_power s') = Inr ((if k > 20 then k - 3 - 5 else k - 5) + 5)"
    using set s'(2,3) get unfolding d_def p_def by auto
  show ?thesis
    using k5 k23 whole ex unfolding k_def by blast
qed

theorem tx_power_high_power_witness:
  "high_power blank \<and> (5::rat) \<le> 23 \<and> (23::rat) < 24 \<and> (5::rat) \<le> 14 \<and> (14::rat) < 24 \<and>
   (\<exists>s'. tx_power_set 23 blank = (Inr (), s') \<and> fst (get_bits pa_dac s') = Inr 7 \<and>
          fst (get_bits output_power s') = Inr 15 \<and> fst (tx_power s') = Inr 20) \<and>
   (\<exists>s'. tx_power_set 14 blank = (Inr (), s') \<and> fst (get_bits pa_dac s') = Inr 4 \<and>
          fst (get_bits output_power s') = Inr 9 \<and> fst (tx_power s') = Inr 14)"
proof -
  have k: "py_int 23 = 23" "py_int 14 = 14" by (simp_all add: py_int_def)
  have h: "high_power blank" by (simp add: blank_def)
  show ?thesis
    using tx_power_high_power [of blank 23] tx_power_high_power [of blank 14] h
    by (simp add: k)
qed

subsection \<open>Frequency\<close>

lemma fstep_quotient: "(val * 1000000) / RH_RF95_FSTEP = val * 16384"
  by (simp add: RH_RF95_FSTEP_def)

lemma frf_range:
  assumes "240 \<le> val" "val \<le> 960"
  shows "0 \<le> \<lfloor>val * 16384\<rfloor>" "\<lfloor>val * 16384\<rfloor> < 2 ^ 24"
    "py_int (val * 16384) AND 0xFFFFFF = \<lfloor>val * 16384\<rfloor>"
proof -
  have q: "3932160 \<le> val * 16384" "val * 16384 \<le> 15728640" using assms by simp_all
  have "(3932160::int) \<le> \<lfloor>val * 16384\<rfloor>" using q(1) by (simp add: le_floor_iff)
  then show 1: "0 \<le> \<lfloor>val * 16384\<rfloor>" by simp
  have "\<lfloor>val * 16384\<rfloor> \<le> (15728640::int)" using q(2) by (simp add: floor_le_iff)
  then show 2: "\<lfloor>val * 16384\<rfloor> < 2 ^ 24" by simp
  have "0 \<le> val * 16384" using q(1) by simp
  then have "py_int (val * 16384) = \<lfloor>val * 16384\<rfloor>" by (simp add: py_int_def)
  moreover have "\<lfloor>val * 16384\<rfloor> AND mask 24 = \<lfloor>val * 16384\<rfloor>"
    using 1 2 by (simp add: take_bit_eq_mask [symmetric] take_bit_int_eq_self)
  ultimately show "py_int (val * 16384) AND 0xFFFFFF = \<lfloor>val * 16384\<rfloor>"
    by (simp add: mask_eq_exp_minus_1)
qed

lemma frf_bytes:
  fixes frf :: int
  assumes "0 \<le> frf" "frf < 2 ^ 24"
  shows "is_byte (drop_bit 16 frf)" "is_byte (drop_bit 8 frf AND 0xFF)" "is_byte (frf AND 0xFF)"
    and "(push_bit 16 (drop_bit 16 frf) OR push_bit 8 (drop_bit 8 frf AND 0xFF) OR (frf AND 0xFF))
           AND 0xFFFFFF = frf"
proof -
  have m: "(255::int) = mask 8" "(16777215::int) = mask 24" by (simp_all add: mask_eq_exp_minus_1)
  have b: "\<And>n. bit frf n \<Longrightarrow> n < 24" using bit_bounded [OF assms] .
  show "is_byte (drop_bit 16 frf)"
    unfolding is_byte_iff_take_bit
    apply (rule bit_eqI)
    subgoal for n using b [of "16 + n"] by (auto simp: bit_simps)
    done
  show "is_byte (drop_bit 8 frf AND 0xFF)"
    unfolding is_byte_iff_take_bit
    apply (rule bit_eqI)
    subgoal for n by (auto simp: m bit_simps)
    done
  show "is_byte (frf AND 0xFF)"
    unfolding is_byte_iff_take_bit
    apply (rule bit_eqI)
    subgoal for n by (auto simp: m bit_simps)
    done
  show "(push_bit 16 (drop_bit 16 frf) OR push_bit 8 (drop_bit 8 frf AND 0xFF) OR (frf AND 0xFF))
           AND 0xFFFFFF = frf"
    apply (rule bit_eqI)
    subgoal for n using b [of n] by (cases "16 \<le> n") (auto simp: m bit_simps)
    done
qed

text \<open>
  C7 as stated fails: the setter truncates, it does not round. The frequency
  \<open>240 + 3 / 65536\<close> MHz (the float \<^verbatim>\<open>240.0000457763671875\<close>, for which every operation of
  the setter is exact) gives the quotient \<open>3932160.75\<close>. The setter writes the bytes
  \<open>60, 0, 0\<close>, that is \<open>3932160\<close>, while rounding gives \<open>3932161\<close>.
\<close>

theorem frequency_round_counterexample:
  "uint (regs (snd (frequency_mhz_set (15728643 / 65536) blank)) 0x06) = 60 \<and>
   uint (regs (snd (frequency_mhz_set (15728643 / 65536) blank)) 0x07) = 0 \<and>
   uint (regs (snd (frequency_mhz_set (15728643 / 65536) blank)) 0x08) = 0 \<and>
   push_bit 16 60 OR push_bit 8 0 OR 0 = (3932160::int) \<and>
   round ((15728643 / 65536 :: rat) * 1000000 / (RH_RF95_FXOSC / 2 ^ 19)) = 3932161"
proof -
  have f: "\<lfloor>15728643 / 4 :: rat\<rfloor> = (3932160::int)" by (rule floor_unique) simp_all
  have r: "round (15728643 / 4 :: rat) = (3932161::int)"
    unfolding round_def by (rule floor_unique) simp_all
  have q: "(15728643 / 65536 :: rat) * 1000000 / RH_RF95_FSTEP = 15728643 / 4"
    by (simp add: RH_RF95_FSTEP_def)
  have frf: "py_int ((15728643 / 65536 :: rat) * 1000000 / RH_RF95_FSTEP) AND 0xFFFFFF = 3932160"
    unfolding q by (simp add: py_int_def f)
  have s: "frequency_mhz_set (15728643 / 65536) blank =
     (Inr (), blank\<lparr>spi_log := [[0x86, 60], [0x87, 0], [0x88, 0]],
                     regs := ((regs blank)(0x06 := 60, 0x07 := 0, 0x08 := 0))\<rparr>)"
    unfolding frequency_mhz_set_def frf
    by (simp add: Let_def seq_def write_u8_eq is_byte_def blank_def)
  show ?thesis
    unfolding s using r by simp
qed

text \<open>
  C7, amended. For every frequency \<open>240 \<le> val \<le> 960\<close> the setter computes the 24-bit
  value by truncation, \<open>frf = \<lfloor>val * 1e6 / (Fxosc / 2 ^ 19)\<rfloor>\<close> with \<open>Fxosc\<close> = 32 MHz, and
  writes its bytes, most significant first, to the registers \<open>0x06\<close>, \<open>0x07\<close>, \<open>0x08\<close>, leaving
  every other register unchanged. The getter recomposes \<open>frf\<close> from the three bytes and
  returns \<open>frf * (Fxosc / 2 ^ 19) / 1e6\<close>, which is at most \<open>val\<close> and less than one
  frequency step below it. Where the quotient is a whole number, as for every whole
  number of MHz, truncation and rounding agree and the getter returns \<open>val\<close>.
\<close>

theorem frequency_mhz_truncates:
  fixes val :: rat and s :: driver
  defines "frf \<equiv> \<lfloor>val * 1000000 / (RH_RF95_FXOSC / 2 ^ 19)\<rfloor>"
  assumes "240 \<le> val" "val \<le> 960"
  shows "\<exists>s'. frequency_mhz_set val s = (Inr (), s') \<and>
           uint (regs s' 0x06) = drop_bit 16 frf \<and>
           uint (regs s' 0x07) = drop_bit 8 frf AND 0xFF \<and>
           uint (regs s' 0x08) = frf AND 0xFF \<and>
           (push_bit 16 (uint (regs s' 0x06)) OR push_bit 8 (uint (regs s' 0x07))
              OR uint (regs s' 0x08)) AND 0xFFFFFF = frf \<and>
           (\<forall>r. r \<noteq> 0x06 \<and> r \<noteq> 0x07 \<and> r \<noteq> 0x08 \<longrightarrow> regs s' r = regs s r) \<and>
           fst (frequency_mhz s') = Inr (of_int frf * (RH_RF95_FXOSC / 2 ^ 19) / 1000000) \<and>
           val - (RH_RF95_FXOSC / 2 ^ 19) / 1000000
              < of_int frf * (RH_RF95_FXOSC / 2 ^ 19) / 1000000 \<and>
           of_int frf * (RH_RF95_FXOSC / 2 ^ 19) / 1000000 \<le> val \<and>
           (val * 1000000 / (RH_RF95_FXOSC / 2 ^ 19) \<in> \<int> \<longrightarrow>
              frf = round (val * 1000000 / (RH_RF95_FXOSC / 2 ^ 19)) \<and>
              fst (frequency_mhz s') = Inr val)"
proof -
  have frf: "frf = \<lfloor>val * 16384\<rfloor>" by (simp add: frf_def mult.commute)
  note rg = frf_range [OF assms(2,3), folded frf]
  note bs = frf_bytes [OF rg(1,2)]
  define s' where "s' = s\<lparr>spi_log := spi_log s @ [[0x86, drop_bit 16 frf],
                         [0x87, drop_bit 8 frf AND 0xFF], [0x88, frf AND 0xFF]],
                       regs := (regs s)(0x06 := word_of_int (drop_bit 16 frf),
                                        0x07 := word_of_int (drop_bit 8 frf AND 0xFF),
                                        0x08 := word_of_int (frf AND 0xFF))\<rparr>"
  have run: "frequency_mhz_set val s = (Inr (), s')"
    using assms(2,3) bs(1-3)
    by (simp add: frequency_mhz_set_def fstep_quotient rg(3) Let_def seq_def write_u8_eq s'_def)
  have r6: "uint (regs s' 0x06) = drop_bit 16 frf"
    and r7: "uint (regs s' 0x07) = drop_bit 8 frf AND 0xFF"
    and r8: "uint (regs s' 0x08) = frf AND 0xFF"
    using bs(1-3) by (simp_all add: s'_def uint_word_of_int_byte)
  have others: "\<forall>r. r \<noteq> 0x06 \<and> r \<noteq> 0x07 \<and> r \<noteq> 0x08 \<longrightarrow> regs s' r = regs s r"
    by (simp add: s'_def)
  have recomp: "(push_bit 16 (uint (regs s' 0x06)) OR push_bit 8 (uint (regs s' 0x07))
              OR uint (regs s' 0x08)) AND 0xFFFFFF = frf"
    unfolding r6 r7 r8 by (rule bs(4))
  have get: "fst (frequency_mhz s') = Inr (of_int frf * (RH_RF95_FXOSC / 2 ^ 19) / 1000000)"
    unfolding frequency_mhz_def
    by (simp add: seq_def read_u8_eq return_def Let_def recomp RH_RF95_FSTEP_def)
  have step: "of_int frf * (RH_RF95_FXOSC / 2 ^ 19) / 1000000 = (of_int frf :: rat) / 16384"
    by simp
  have lo: "val * 16384 - 1 < (of_int frf :: rat)" unfolding frf by linarith
  have hi: "(of_int frf :: rat) \<le> val * 16384" unfolding frf by simp
  have near: "val - (RH_RF95_FXOSC / 2 ^ 19) / 1000000
              < of_int frf * (RH_RF95_FXOSC / 2 ^ 19) / 1000000"
    unfolding step using lo by (simp add: field_simps)
  have below: "of_int frf * (RH_RF95_FXOSC / 2 ^ 19) / 1000000 \<le> val"
    unfolding step using hi by (simp add: field_simps)
  have whole: "val * 1000000 / (RH_RF95_FXOSC / 2 ^ 19) \<in> \<int> \<longrightarrow>
              frf = round (val * 1000000 / (RH_RF95_FXOSC / 2 ^ 19)) \<and>
              fst (frequency_mhz s') = Inr val"
  proof
    assume "val * 1000000 / (RH_RF95_FXOSC / 2 ^ 19) \<in> \<int>"
    then obtain k :: int where k: "val * 1000000 / (RH_RF95_FXOSC / 2 ^ 19) = of_int k"
      by (auto elim: Ints_cases)
    have fk: "frf = k" unfolding frf_def k by simp
    have "val * 16384 = of_int k" using k by simp
    then have v: "val = of_int k / 16384" by simp
    show "frf = round (val * 1000000 / (RH_RF95_FXOSC / 2 ^ 19)) \<and>
              fst (frequency_mhz s') = Inr val"
      unfolding get step k fk by (simp add: v)
  qed
  show ?thesis
    by (rule exI [of _ s']) (intro conjI run r6 r7 r8 recomp others get near below whole)
qed

theorem frequency_mhz_truncates_witness:
  "(240::rat) \<le> 915 \<and> (915::rat) \<le> 960 \<and>
   (\<exists>s'. frequency_mhz_set 915 blank = (Inr (), s') \<and>
      uint (regs s' 0x06) = 228 \<and> uint (regs s' 0x07) = 192 \<and> uint (regs s' 0x08) = 0 \<and>
      fst (frequency_mhz s') = Inr 915)"
proof -
  have f: "\<lfloor>915 * 1000000 / (RH_RF95_FXOSC / 2 ^ 19)\<rfloor> = (14991360::int)"
    by (rule floor_unique) simp_all
  have i: "(915::rat) * 1000000 / (RH_RF95_FXOSC / 2 ^ 19) \<in> \<int>"
  proof -
    have "(915::rat) * 1000000 / (RH_RF95_FXOSC / 2 ^ 19) = of_int 14991360" by simp
    then show ?thesis by (simp only: Ints_of_int)
  qed
  show ?thesis
    using frequency_mhz_truncates [of 915 blank] i unfolding f by auto
qed

subsection \<open>Operations that leave the driver's attributes alone\<close>

lemma same_attributes_refl: "same_attributes s s"
  by (simp add: same_attributes_def)

lemma same_attributes_trans:
  "same_attributes s s' \<Longrightarrow> same_attributes s' s'' \<Longrightarrow> same_attributes s s''"
  by (simp add: same_attributes_def)

lemma keeps_return: "keeps (return v)"
  by (simp add: keeps_def return_def same_attributes_refl)

lemma keeps_raise: "keeps (raise e)"
  by (simp add: keeps_def raise_def same_attributes_refl)

lemma keeps_seq:
  assumes "keeps m" "\<And>v. keeps (f v)"
  shows "keeps (seq m f)"
  unfolding keeps_def
proof
  fix s
  obtain r s1 where m: "m s = (r, s1)" by (cases "m s")
  have a: "same_attributes s s1" using assms(1) m unfolding keeps_def by (metis snd_conv)
  show "same_attributes s (snd (seq m f s))"
  proof (cases r)
    case (Inl e)
    then show ?thesis using a m by (simp add: seq_def)
  next
    case (Inr v)
    have "same_attributes s1 (snd (f v s1))" using assms(2) unfolding keeps_def by blast
    then show ?thesis using a m Inr by (auto simp: seq_def intro: same_attributes_trans)
  qed
qed


lemma keeps_spi_xfer: "keeps (spi_xfer bs)"
  by (simp add: keeps_def spi_xfer_def same_attributes_def)


lemma keeps_write_u8: "keeps (write_u8 a v)"
  by (simp add: keeps_def write_u8_eq same_attributes_def)

lemma keeps_write_bytes: "keeps (write_bytes a bs)"
  by (simp add: write_bytes_def keeps_spi_xfer)


lemma keeps_set_bits: "keeps (set_bits f v)"
  by (simp add: keeps_def set_bits_eq same_attributes_def Let_def)

lemma keeps_idle: "keeps idle"
  by (simp add: idle_def keeps_set_bits)


lemma keeps_transmit: "keeps transmit"
  by (simp add: transmit_def keeps_seq keeps_set_bits keeps_write_u8)

lemma keeps_py_assert: "keeps (py_assert b)"
  by (simp add: py_assert_def keeps_return keeps_raise)

lemma keeps_struct_pack_B: "keeps (struct_pack_B xs)"
  by (induction xs rule: struct_pack_B.induct)
     (simp_all add: keeps_return keeps_raise keeps_seq)

lemma keeps_send_finish: "keeps (send_finish timed_out h)"
  by (simp add: send_finish_def keeps_seq keeps_idle keeps_write_u8 keeps_raise keeps_return)

lemma keeps_run_lift: "keeps m \<Longrightarrow> keeps_run (lift m)"
  by (auto simp: keeps_def keeps_run_def lift_def) (metis snd_conv)

lemma keeps_run_seq_run:
  assumes "keeps_run m" "\<And>v. keeps_run (f v)"
  shows "keeps_run (seq_run m f)"
  unfolding keeps_run_def
proof (intro allI impI)
  fix s r s'
  assume h: "seq_run m f s = Some (r, s')"
  then obtain r1 s1 where m: "m s = Some (r1, s1)"
    by (cases "m s") (auto simp: seq_run_def)
  have a: "same_attributes s s1" using assms(1) m unfolding keeps_run_def by blast
  show "same_attributes s s'"
  proof (cases r1)
    case (Inl e)
    then show ?thesis using a m h by (simp add: seq_run_def)
  next
    case (Inr v)
    then have "f v s1 = Some (r, s')" using m h by (simp add: seq_run_def)
    then have "same_attributes s1 s'" using assms(2) unfolding keeps_run_def by blast
    then show ?thesis using a by (rule same_attributes_trans [rotated])
  qed
qed

lemma keeps_run_wait_tx_done: "keeps_run (wait_tx_done start timeout polls)"
  unfolding keeps_run_def
proof (intro allI impI)
  fix s r s'
  assume "wait_tx_done start timeout polls s = Some (r, s')"
  then show "same_attributes s s'"
  proof (induction polls arbitrary: s)
    case Nil
    then show ?case by simp
  next
    case (Cons p polls)
    obtain irq now where p: "p = (irq, now)" by (cases p)
    define s1 where "s1 = snd (get_bits tx_done (s\<lparr>regs := (regs s)(0x12 := irq)\<rparr>))"
    have a: "same_attributes s s1"
      by (simp add: s1_def get_bits_eq same_attributes_def)
    show ?case
    proof (cases "wait_tx_done start timeout (p # polls) s = wait_tx_done start timeout polls s1")
      case True
      then show ?thesis using Cons.IH [of s1] Cons.prems a
        by (auto intro: same_attributes_trans)
    next
      case False
      then have "s' = s1" using Cons.prems
        by (auto simp: p s1_def get_bits_eq split: if_splits)
      then show ?thesis using a by simp
    qed
  qed
qed

subsection \<open>Rejected inputs\<close>

lemma seq_run_lift:
  "seq_run (lift m) f s =
     (case m s of (Inl e, s') \<Rightarrow> Some (Inl e, s') | (Inr v, s') \<Rightarrow> f v s')"
  by (simp add: seq_run_def lift_def split: prod.splits sum.splits)

lemma seq_return: "seq (return v) f = f v"
  by (rule ext) (simp add: seq_def return_def)

lemma seq_raise: "seq (raise e) f = raise e"
  by (rule ext) (simp add: seq_def raise_def)

lemma py_assert_True: "b \<Longrightarrow> py_assert b = return ()"
  by (simp add: py_assert_def)

lemma py_assert_False: "\<not> b \<Longrightarrow> py_assert b = raise AssertionError"
  by (simp add: py_assert_def)

lemma send_prepare_length:
  assumes "\<not> (0 < length data \<and> length data \<le> 252)"
  shows "send_prepare data h s = (Inl AssertionError, s)"
  unfolding send_prepare_def py_assert_False [OF assms] seq_raise
  by (simp add: raise_def)

lemma send_prepare_error:
  "send_prepare data h s = (Inl e, s') \<Longrightarrow>
     send data timeout h start polls s = Some (Inl e, s')"
  by (simp add: send_def seq_run_lift)

lemma py_int_outside:
  "(py_int v < 5 \<or> py_int v > 23) \<longleftrightarrow> (v < 5 \<or> 24 \<le> v)"
  "(py_int v < -1 \<or> py_int v > 14) \<longleftrightarrow> (v \<le> -2 \<or> 15 \<le> v)"
proof -
  show "(py_int v < 5 \<or> py_int v > 23) \<longleftrightarrow> (v < 5 \<or> 24 \<le> v)"
  proof (cases "0 \<le> v")
    case True
    have "\<lfloor>v\<rfloor> > 23 \<longleftrightarrow> 24 \<le> \<lfloor>v\<rfloor>" by linarith
    then show ?thesis
      using True by (simp add: py_int_def floor_less_iff le_floor_iff)
  next
    case False
    then have "\<lceil>v\<rceil> \<le> 0" by (simp add: ceiling_le_iff)
    then show ?thesis using False by (simp add: py_int_def)
  qed
  show "(py_int v < -1 \<or> py_int v > 14) \<longleftrightarrow> (v \<le> -2 \<or> 15 \<le> v)"
  proof (cases "0 \<le> v")
    case True
    then have "0 \<le> \<lfloor>v\<rfloor>" by simp
    then have f: "\<not> \<lfloor>v\<rfloor> < -1" by linarith
    have "\<lfloor>v\<rfloor> > 14 \<longleftrightarrow> 15 \<le> \<lfloor>v\<rfloor>" by linarith
    then show ?thesis
      using True f by (simp add: py_int_def le_floor_iff)
  next
    case False
    then have c: "\<lceil>v\<rceil> \<le> 0" by (simp add: ceiling_le_iff)
    have "\<lceil>v\<rceil> < -1 \<longleftrightarrow> \<lceil>v\<rceil> \<le> -2" by linarith
    then show ?thesis
      using False c by (simp add: py_int_def ceiling_le_iff)
  qed
qed

text \<open>
  C8 as stated fails for a power that is not a whole number: the setter truncates
  before it tests the range. On a high-power driver \<open>23.5\<close> is outside \<open>[5, 23]\<close>, yet
  it is taken as 23: the setter succeeds, makes six bus transfers and changes the
  PA-DAC register.
\<close>

theorem tx_power_truncation_counterexample:
  "high_power blank \<and> (23::rat) < 47 / 2 \<and>
   fst (tx_power_set (47 / 2) blank) = Inr () \<and>
   length (spi_log (snd (tx_power_set (47 / 2) blank))) = 6 \<and>
   uint (regs (snd (tx_power_set (47 / 2) blank)) 0x4d) = 7 \<and>
   uint (regs blank 0x4d) = 0"
  by code_simp

text \<open>
  C8, amended. A frequency outside \<open>[240, 960]\<close>, a power whose truncation \<open>int(v)\<close> is
  outside \<open>[5, 23]\<close> on a high-power driver (that is \<open>v < 5\<close> or \<open>v \<ge> 24\<close>) or outside
  \<open>[-1, 14]\<close> on a low-power one (that is \<open>v \<le> -2\<close> or \<open>v \<ge> 15\<close>), and a payload of
  length 0 or more than 252 are each rejected with an error, and the state returned
  with the error is the state before the call: no register, no driver attribute and no
  bus transfer.
\<close>

theorem rejected_before_any_transfer:
  "(val < 240 \<or> val > 960 \<longrightarrow>
      frequency_mhz_set val s =
        (Inl (RuntimeError ''frequency_mhz must be between 240 and 960''), s)) \<and>
   (high_power s \<and> (py_int v < 5 \<or> py_int v > 23) \<longrightarrow>
      tx_power_set v s = (Inl (RuntimeError ''tx_power must be between 5 and 23''), s)) \<and>
   (\<not> high_power s \<and> (py_int v < -1 \<or> py_int v > 14) \<longrightarrow>
      tx_power_set v s = (Inl AssertionError, s)) \<and>
   ((py_int v < 5 \<or> py_int v > 23) = (v < 5 \<or> 24 \<le> v)) \<and>
   ((py_int v < -1 \<or> py_int v > 14) = (v \<le> -2 \<or> 15 \<le> v)) \<and>
   (length data = 0 \<or> length data > 252 \<longrightarrow>
      send data timeout tx_header start polls s = Some (Inl AssertionError, s))"
proof -
  have 1: "val < 240 \<or> val > 960 \<longrightarrow>
      frequency_mhz_set val s =
        (Inl (RuntimeError ''frequency_mhz must be between 240 and 960''), s)"
    by (simp add: frequency_mhz_set_def raise_def)
  have 2: "high_power s \<and> (py_int v < 5 \<or> py_int v > 23) \<longrightarrow>
      tx_power_set v s = (Inl (RuntimeError ''tx_power must be between 5 and 23''), s)"
    by (simp add: tx_power_set_def Let_def raise_def)
  have 3: "\<not> high_power s \<and> (py_int v < -1 \<or> py_int v > 14) \<longrightarrow>
      tx_power_set v s = (Inl AssertionError, s)"
    by (auto simp: tx_power_set_def Let_def seq_def py_assert_def raise_def)
  have 4: "length data = 0 \<or> length data > 252 \<longrightarrow>
      send data timeout tx_header start polls s = Some (Inl AssertionError, s)"
    by (auto intro!: send_prepare_error send_prepare_length)
  show ?thesis using 1 2 3 4 py_int_outside [of v] by blast
qed

theorem rejected_before_any_transfer_witness:
  "((1000::rat) < 240 \<or> (1000::rat) > 960) \<and>
   frequency_mhz_set 1000 blank =
     (Inl (RuntimeError ''frequency_mhz must be between 240 and 960''), blank) \<and>
   (high_power blank \<and> (py_int 24 < 5 \<or> py_int 24 > 23)) \<and>
   tx_power_set 24 blank = (Inl (RuntimeError ''tx_power must be between 5 and 23''), blank) \<and>
   (\<not> high_power (blank\<lparr>high_power := False\<rparr>) \<and> (py_int 15 < -1 \<or> py_int 15 > 14)) \<and>
   tx_power_set 15 (blank\<lparr>high_power := False\<rparr>) = (Inl AssertionError, blank\<lparr>high_power := False\<rparr>) \<and>
   (length ([] :: byte list) = 0 \<or> length ([] :: byte list) > 252) \<and>
   send [] 2 (PyList [Some 1, Some 2, Some 0, Some 0]) 0 [] blank = Some (Inl AssertionError, blank)"
proof -
  have k: "py_int 24 = 24" "py_int 15 = 15" by (simp_all add: py_int_def)
  show ?thesis
    using rejected_before_any_transfer [of 1000 blank 24 "[]" 2 "PyList [Some 1, Some 2, Some 0, Some 0]" 0 "[]"]
      rejected_before_any_transfer [of 1000 "blank\<lparr>high_power := False\<rparr>" 15 "[]" 2 "PyList [Some 1, Some 2, Some 0, Some 0]" 0 "[]"]
    by (simp add: blank_def k)
qed

subsection \<open>Sequence ids\<close>

lemma allocate_id_tuple:
  "xs ! 2 = Some 0 \<Longrightarrow> allocate_id (PyTuple xs) s = (Inl TypeError, s)"
  by (simp add: allocate_id_def Let_def seq_def raise_def)

lemma send_prepare_tuple:
  assumes "xs ! 2 = Some 0"
  shows "send_prepare data (PyTuple xs) s =
           (if 0 < length data \<and> length data \<le> 252 \<and> length xs = 4
            then (Inl TypeError, s) else (Inl AssertionError, s))"
proof (cases "0 < length data \<and> length data \<le> 252")
  case False
  show ?thesis
    unfolding send_prepare_length [OF False] using False by auto
next
  case True
  show ?thesis
  proof (cases "length xs = 4")
    case False
    have "\<not> length (items (PyTuple xs)) = 4" using False by simp
    then show ?thesis
      unfolding send_prepare_def py_assert_True [OF True] seq_return
        py_assert_False [OF \<open>\<not> length (items (PyTuple xs)) = 4\<close>] seq_raise
      using False by (simp add: raise_def)
  next
    case len: True
    have l: "length (items (PyTuple xs)) = 4" using len by simp
    show ?thesis
      unfolding send_prepare_def py_assert_True [OF True] py_assert_True [OF l] seq_return
      using True len by (simp add: seq_def allocate_id_tuple [OF assms])
  qed
qed

text \<open>The id the block assigns: one more than the last id used, rolled over at 254.\<close>

lemma allocate_id_list:
  assumes "length xs = 4" "xs ! 2 = Some 0"
  shows "allocate_id (PyList xs) s =
           (let n = (case last_sent_id s (xs ! 0) of Some prev \<Rightarrow> prev + 1 | None \<Rightarrow> 1);
                i = (if n < 254 then n else 1)
            in (Inr (PyList (xs[2 := Some i])),
                s\<lparr>last_sent_id := (last_sent_id s)(xs ! 0 \<mapsto> i)\<rparr>))"
  using assms by (simp add: allocate_id_def Let_def seq_def return_def)

lemma keeps_send_tail:
  "keeps (seq idle (\<lambda>_.
     seq (write_u8 0x0d 0x00) (\<lambda>_.
     seq (struct_pack_B (items h)) (\<lambda>packed.
     let payload = packed @ map uint data
     in
     seq (write_bytes 0x00 payload) (\<lambda>_.
     seq (write_u8 0x22 (int (length payload))) (\<lambda>_.
     seq transmit (\<lambda>_.
     return h)))))))"
  by (intro keeps_seq keeps_idle keeps_write_u8 keeps_struct_pack_B)
     (simp add: Let_def keeps_seq keeps_write_bytes keeps_write_u8 keeps_transmit keeps_return)

lemma send_prepare_list_ids:
  assumes "0 < length data" "length data \<le> 252" "length xs = 4" "xs ! 2 = Some 0"
  shows "last_sent_id (snd (send_prepare data (PyList xs) s)) =
           (last_sent_id s)(xs ! 0 \<mapsto>
              (let n = (case last_sent_id s (xs ! 0) of Some prev \<Rightarrow> prev + 1 | None \<Rightarrow> 1)
               in if n < 254 then n else 1))"
proof -
  define i where "i = (let n = (case last_sent_id s (xs ! 0) of Some prev \<Rightarrow> prev + 1 | None \<Rightarrow> 1)
               in if n < 254 then n else 1)"
  define s1 where "s1 = s\<lparr>last_sent_id := (last_sent_id s)(xs ! 0 \<mapsto> i)\<rparr>"
  define h1 where "h1 = PyList (xs[2 := Some i])"
  have al: "allocate_id (PyList xs) s = (Inr h1, s1)"
    using allocate_id_list [OF assms(3,4), of s] by (simp add: i_def s1_def h1_def Let_def)
  have l: "length (items (PyList xs)) = 4" using assms(3) by simp
  have d: "0 < length data \<and> length data \<le> 252" using assms(1,2) by simp
  have "send_prepare data (PyList xs) s =
     seq idle (\<lambda>_.
     seq (write_u8 0x0d 0x00) (\<lambda>_.
     seq (struct_pack_B (items h1)) (\<lambda>packed.
     let payload = packed @ map uint data
     in
     seq (write_bytes 0x00 payload) (\<lambda>_.
     seq (write_u8 0x22 (int (length payload))) (\<lambda>_.
     seq transmit (\<lambda>_.
     return h1)))))) s1"
    unfolding send_prepare_def py_assert_True [OF d] py_assert_True [OF l] seq_return
    by (subst seq_def) (simp add: al)
  then have "same_attributes s1 (snd (send_prepare data (PyList xs) s))"
    using keeps_send_tail [of h1 data] by (simp add: keeps_def)
  then show ?thesis
    by (simp add: same_attributes_def s1_def i_def)
qed

lemma send_ids:
  assumes "send data timeout h start polls s = Some (r, s')"
  shows "last_sent_id s' = last_sent_id (snd (send_prepare data h s))"
proof -
  obtain r1 s1 where p: "send_prepare data h s = (r1, s1)" by (cases "send_prepare data h s")
  show ?thesis
  proof (cases r1)
    case (Inl e)
    then show ?thesis using assms p by (simp add: send_def seq_run_lift)
  next
    case (Inr h1)
    have k: "keeps_run (seq_run (wait_tx_done start timeout polls) (\<lambda>timed_out.
               lift (send_finish timed_out h1)))"
      by (intro keeps_run_seq_run keeps_run_wait_tx_done keeps_run_lift keeps_send_finish)
    have "seq_run (wait_tx_done start timeout polls) (\<lambda>timed_out.
               lift (send_finish timed_out h1)) s1 = Some (r, s')"
      using assms p Inr by (simp add: send_def seq_run_lift)
    then have "same_attributes s1 s'" using k unfolding keeps_run_def by blast
    then show ?thesis using p by (simp add: same_attributes_def)
  qed
qed

text \<open>
  C1. The allocation rule itself is what the claim says (see \<open>send_prepare_list_ids\<close>), but
  it is reached only with a list. The header documented for \<^verbatim>\<open>send\<close>, a 4-tuple, and the
  default header in particular, has id 0 and cannot be assigned to: a first send to the
  broadcast address with the default header raises \<^verbatim>\<open>TypeError\<close>, allocates nothing and
  stores nothing.
\<close>

theorem send_default_header_raises:
  "send [0x78] timeout
     (PyTuple [Some RH_BROADCAST_ADDRESS, Some RH_BROADCAST_ADDRESS, Some 0, Some 0])
     start polls blank = Some (Inl TypeError, blank) \<and>
   last_sent_id blank (Some RH_BROADCAST_ADDRESS) = None"
  by (simp add: send_prepare_error send_prepare_tuple) (simp add: blank_def)

text \<open>
  C2 as stated fails for a call whose payload is empty: the length assertion comes
  first, and the error is \<^verbatim>\<open>AssertionError\<close>.
\<close>

theorem send_tuple_empty_payload_counterexample:
  "send [] 2 (PyTuple [Some RH_BROADCAST_ADDRESS, Some RH_BROADCAST_ADDRESS, Some 0, Some 0])
     0 [] blank = Some (Inl AssertionError, blank) \<and> AssertionError \<noteq> TypeError"
  by (simp add: send_prepare_error send_prepare_tuple)

text \<open>
  C2, amended. For every call of \<^verbatim>\<open>send\<close> whose header is a tuple with id 0: if the
  payload has 1 to 252 bytes and the tuple has four items, the id-allocation step
  raises \<^verbatim>\<open>TypeError\<close>; otherwise an assertion fails first. In both cases the state is
  the one before the call: no mode change, no bus transfer, no id stored. So a call with
  id 0 that changes \<^verbatim>\<open>last_sent_id\<close> was given a list; and with a list of four items and
  a payload of 1 to 252 bytes the id is allocated and stored, whatever the rest of the
  call does.
\<close>

theorem send_tuple_header:
  "(xs ! 2 = Some 0 \<and> 0 < length data \<and> length data \<le> 252 \<and> length xs = 4 \<longrightarrow>
      send data timeout (PyTuple xs) start polls s = Some (Inl TypeError, s)) \<and>
   (xs ! 2 = Some 0 \<and> \<not> (0 < length data \<and> length data \<le> 252 \<and> length xs = 4) \<longrightarrow>
      send data timeout (PyTuple xs) start polls s = Some (Inl AssertionError, s)) \<and>
   (items h ! 2 = Some 0 \<and> send data timeout h start polls s = Some (r, s') \<and>
    last_sent_id s' \<noteq> last_sent_id s \<longrightarrow> (\<exists>ys. h = PyList ys)) \<and>
   (0 < length data \<and> length data \<le> 252 \<and> length ys = 4 \<and> ys ! 2 = Some 0 \<and>
    send data timeout (PyList ys) start polls s = Some (r, s') \<longrightarrow>
      last_sent_id s' = (last_sent_id s)(ys ! 0 \<mapsto>
         (let n = (case last_sent_id s (ys ! 0) of Some prev \<Rightarrow> prev + 1 | None \<Rightarrow> 1)
          in if n < 254 then n else 1)))"
proof -
  have 1: "xs ! 2 = Some 0 \<and> 0 < length data \<and> length data \<le> 252 \<and> length xs = 4 \<longrightarrow>
      send data timeout (PyTuple xs) start polls s = Some (Inl TypeError, s)"
    by (auto intro!: send_prepare_error simp: send_prepare_tuple)
  have 2: "xs ! 2 = Some 0 \<and> \<not> (0 < length data \<and> length data \<le> 252 \<and> length xs = 4) \<longrightarrow>
      send data timeout (PyTuple xs) start polls s = Some (Inl AssertionError, s)"
    by (auto intro!: send_prepare_error simp: send_prepare_tuple)
  have 3: "items h ! 2 = Some 0 \<and> send data timeout h start polls s = Some (r, s') \<and>
    last_sent_id s' \<noteq> last_sent_id s \<longrightarrow> (\<exists>ys. h = PyList ys)"
  proof (cases h)
    case (PyTuple zs)
    show ?thesis
    proof (intro impI, elim conjE)
      assume z: "items h ! 2 = Some 0" and r: "send data timeout h start polls s = Some (r, s')"
        and ne: "last_sent_id s' \<noteq> last_sent_id s"
      have "zs ! 2 = Some 0" using z PyTuple by simp
      then have "snd (send_prepare data (PyTuple zs) s) = s"
        by (simp add: send_prepare_tuple)
      then have "last_sent_id s' = last_sent_id s"
        using send_ids [OF r] PyTuple by simp
      then show "\<exists>ys. h = PyList ys" using ne by simp
    qed
  next
    case (PyList zs)
    then show ?thesis by simp
  qed
  have 4: "0 < length data \<and> length data \<le> 252 \<and> length ys = 4 \<and> ys ! 2 = Some 0 \<and>
    send data timeout (PyList ys) start polls s = Some (r, s') \<longrightarrow>
      last_sent_id s' = (last_sent_id s)(ys ! 0 \<mapsto>
         (let n = (case last_sent_id s (ys ! 0) of Some prev \<Rightarrow> prev + 1 | None \<Rightarrow> 1)
          in if n < 254 then n else 1))"
  proof (intro impI, elim conjE)
    assume a: "0 < length data" "length data \<le> 252" "length ys = 4" "ys ! 2 = Some 0"
      and r: "send data timeout (PyList ys) start polls s = Some (r, s')"
    show "last_sent_id s' = (last_sent_id s)(ys ! 0 \<mapsto>
         (let n = (case last_sent_id s (ys ! 0) of Some prev \<Rightarrow> prev + 1 | None \<Rightarrow> 1)
          in if n < 254 then n else 1))"
      unfolding send_ids [OF r] by (rule send_prepare_list_ids [OF a])
  qed
  show ?thesis using 1 2 3 4 by blast
qed

lemma operation_mode_field: "RegisterBits 0x01 0 3 = Inr operation_mode"
  by (simp add: operation_mode_def RegisterBits_def)

lemma tx_done_field: "RegisterBits 0x12 3 1 = Inr tx_done"
  by (simp add: tx_done_def RegisterBits_def)

lemma operation_mode_simps:
  "address_of operation_mode = 0x01" "offset_of operation_mode = 0" "mask_of operation_mode = 0x07"
  using RegisterBits_Inr(1-3) [OF operation_mode_field] by (simp_all add: mask_eq_exp_minus_1)

lemma tx_done_simps:
  "address_of tx_done = 0x12" "offset_of tx_done = 3" "mask_of tx_done = 0x08"
  using RegisterBits_Inr(1-3) [OF tx_done_field] by (simp_all add: mask_eq_exp_minus_1)

lemma tx_done_bit: "drop_bit 3 (uint (irq :: byte)) AND 1 = 0 \<longleftrightarrow> \<not> bit irq 3"
proof -
  have "drop_bit 3 (uint irq) AND 1 = of_bool (bit irq 3)"
    by (rule bit_eqI) (auto simp: bit_simps bit_uint_iff)
  then show ?thesis by simp
qed

subsection \<open>Timeout\<close>

lemma wait_tx_done_times_out:
  assumes "tx_done_never_seen start timeout polls"
  shows "\<exists>s'. wait_tx_done start timeout polls s = Some (Inr True, s')"
  using assms
proof (induction polls arbitrary: s)
  case Nil
  then show ?case by simp
next
  case (Cons p polls)
  obtain irq now where p: "p = (irq, now)" by (cases p)
  have clear: "drop_bit 3 (uint irq) AND 1 = 0"
    using Cons.prems by (simp add: p tx_done_bit)
  show ?case
  proof (cases "now - start \<ge> timeout")
    case True
    then show ?thesis by (simp add: p get_bits_eq tx_done_simps clear)
  next
    case False
    then have "tx_done_never_seen start timeout polls" using Cons.prems by (simp add: p)
    from Cons.IH [OF this] show ?thesis
      using False by (simp add: p get_bits_eq tx_done_simps clear)
  qed
qed

lemma send_finish_eq:
  "send_finish timed_out h s =
     (if timed_out then Inl (RuntimeError ''Timeout during packet send'') else Inr h,
      s\<lparr>spi_log := spi_log s @
           [[0x01, 0], [0x81, set_value operation_mode (uint (regs s 0x01)) STANDBY_MODE],
            [0x92, 0xFF]],
         regs := (regs s)
           (0x01 := word_of_int (set_value operation_mode (uint (regs s 0x01)) STANDBY_MODE),
            0x12 := 0xFF)\<rparr>)"
proof -
  have o: "(1::int) < 2 ^ nat 3" by simp
  note w = set_bits_in_width(1) [OF operation_mode_field _ o, of s, simplified]
  show ?thesis
    by (simp add: send_finish_def idle_def seq_def w write_u8_eq is_byte_def raise_def return_def)
qed

lemma standby_after_finish:
  fixes s :: driver
  shows "fst (get_bits operation_mode (snd (send_finish timed_out h s))) = Inr STANDBY_MODE"
    and "set_value operation_mode (uint (regs s 0x01)) STANDBY_MODE AND 0x07 = STANDBY_MODE"
proof -
  have o: "(1::int) < 2 ^ nat 3" by simp
  note w = set_bits_in_width(2,3) [OF operation_mode_field _ o, of s, simplified]
  show "fst (get_bits operation_mode (snd (send_finish timed_out h s))) = Inr STANDBY_MODE"
    using w by (simp add: send_finish_eq get_bits_eq operation_mode_simps)
  show "set_value operation_mode (uint (regs s 0x01)) STANDBY_MODE AND 0x07 = STANDBY_MODE"
    using w(2) by (simp add: operation_mode_simps)
qed

lemma send_times_out:
  assumes "send_prepare data tx_header s = (Inr h, s1)"
    and "tx_done_never_seen start timeout polls"
  shows "\<exists>s2. send data timeout tx_header start polls s = Some (send_finish True h s2)"
proof -
  obtain s2 where "wait_tx_done start timeout polls s1 = Some (Inr True, s2)"
    using wait_tx_done_times_out [OF assms(2)] by blast
  then have "send data timeout tx_header start polls s = Some (send_finish True h s2)"
    using assms(1) by (simp add: send_def seq_run_lift seq_run_def lift_def)
  then show ?thesis by blast
qed

text \<open>
  C9. Take an execution of \<^verbatim>\<open>send\<close> that gets as far as the polling loop, and in which
  the transmit-complete flag is never observed set within the timeout. Then \<^verbatim>\<open>send\<close>
  returns, with the error \<^verbatim>\<open>RuntimeError('Timeout during packet send')\<close>. In the state
  returned with the error the operating-mode field reads Standby, and the last three
  bus transfers are the read and the write of the operating-mode register that enter
  Standby, followed by the write of \<open>0xFF\<close> to the IRQ-flags register, which is how the
  driver clears the interrupt flags.
\<close>

theorem send_timeout:
  assumes "send_prepare data tx_header s = (Inr h, s1)"
    and "tx_done_never_seen start timeout polls"
  shows "\<exists>s' pre m.
           send data timeout tx_header start polls s
             = Some (Inl (RuntimeError ''Timeout during packet send''), s') \<and>
           fst (get_bits operation_mode s') = Inr STANDBY_MODE \<and>
           spi_log s' = pre @ [[0x01, 0], [0x81, m], [0x92, 0xFF]] \<and>
           m AND 0x07 = STANDBY_MODE"
proof -
  obtain s2 where r: "send data timeout tx_header start polls s = Some (send_finish True h s2)"
    using send_times_out [OF assms] by blast
  define s' where "s' = snd (send_finish True h s2)"
  define m where "m = set_value operation_mode (uint (regs s2 0x01)) STANDBY_MODE"
  have 1: "send data timeout tx_header start polls s
             = Some (Inl (RuntimeError ''Timeout during packet send''), s')"
    by (simp add: r s'_def send_finish_eq)
  have 2: "fst (get_bits operation_mode s') = Inr STANDBY_MODE"
    unfolding s'_def by (rule standby_after_finish(1))
  have 3: "spi_log s' = spi_log s2 @ [[0x01, 0], [0x81, m], [0x92, 0xFF]]"
    by (simp add: s'_def m_def send_finish_eq)
  have 4: "m AND 0x07 = STANDBY_MODE"
    unfolding m_def by (rule standby_after_finish(2))
  show ?thesis using 1 2 3 4 by blast
qed

lemma send_prepare_example:
  "send_prepare [0x78] (PyList [Some 5, Some 255, Some 0, Some 0]) blank
   = (Inr (PyList [Some 5, Some 255, Some 1, Some 0]),
      blank\<lparr>spi_log := [[1, 0], [129, 1], [141, 0], [128, 5, 255, 1, 0, 120], [162, 5],
               [1, 0], [129, 3], [192, 64]],
            regs := (regs blank)(0x01 := 3, 0x0d := 0, 0x22 := 5, 0x40 := 64),
            last_sent_id := [Some 5 \<mapsto> 1]\<rparr>)"
  apply (simp add: send_prepare_def py_assert_True seq_return allocate_id_def Let_def blank_def
      seq_def return_def raise_def idle_def transmit_def set_bits_eq set_value_def
      operation_mode_simps write_u8_eq write_bytes_def spi_xfer_def is_byte_def)
  apply (rule ext)
  apply simp
  done

theorem send_timeout_witness:
  "tx_done_never_seen 0 2 [(0, 1), (0, 3)] \<and>
   (\<exists>h s1. send_prepare [0x78] (PyList [Some 5, Some 255, Some 0, Some 0]) blank = (Inr h, s1)) \<and>
   (\<exists>s'. send [0x78] 2 (PyList [Some 5, Some 255, Some 0, Some 0]) 0 [(0, 1), (0, 3)] blank
            = Some (Inl (RuntimeError ''Timeout during packet send''), s') \<and>
          fst (get_bits operation_mode s') = Inr STANDBY_MODE)"
proof -
  have n: "tx_done_never_seen 0 2 [(0, 1), (0, 3)]" by simp
  show ?thesis
    using send_timeout [OF send_prepare_example n] n send_prepare_example by blast
qed

theorem send_tuple_header_witness:
  "send [0x78] 2 (PyTuple [Some RH_BROADCAST_ADDRESS, Some RH_BROADCAST_ADDRESS, Some 0, Some 0])
      0 [] blank = Some (Inl TypeError, blank) \<and>
   (\<exists>r s'. send [0x78] 2 (PyList [Some 5, Some 255, Some 0, Some 0]) 0 [(0, 1), (0, 3)] blank
              = Some (r, s') \<and>
            last_sent_id s' = [Some 5 \<mapsto> 1])"
proof -
  have n: "tx_done_never_seen 0 2 [(0, 1), (0, 3)]" by simp
  obtain s2 where r: "send [0x78] 2 (PyList [Some 5, Some 255, Some 0, Some 0]) 0 [(0, 1), (0, 3)] blank
      = Some (send_finish True (PyList [Some 5, Some 255, Some 1, Some 0]) s2)"
    using send_times_out [OF send_prepare_example n] by blast
  obtain r' s' where f: "send_finish True (PyList [Some 5, Some 255, Some 1, Some 0]) s2 = (r', s')"
    by (cases "send_finish True (PyList [Some 5, Some 255, Some 1, Some 0]) s2")
  have a: "send [0x78] 2 (PyList [Some 5, Some 255, Some 0, Some 0]) 0 [(0, 1), (0, 3)] blank
      = Some (r', s')" using r f by simp
  have "last_sent_id s' = [Some 5 \<mapsto> 1]"
    using send_tuple_header [of "[Some 5, Some 255, Some 0, Some 0]" "[0x78]" 2 0 "[(0, 1), (0, 3)]" blank
        "PyList [Some 5, Some 255, Some 0, Some 0]" r' s' "[Some 5, Some 255, Some 0, Some 0]"] a
    by (simp add: blank_def)
  moreover have "send [0x78] 2 (PyTuple [Some RH_BROADCAST_ADDRESS, Some RH_BROADCAST_ADDRESS, Some 0, Some 0])
      0 [] blank = Some (Inl TypeError, blank)"
    using send_tuple_header [of "[Some RH_BROADCAST_ADDRESS, Some RH_BROADCAST_ADDRESS, Some 0, Some 0]"
        "[0x78]" 2 0 "[]" blank] by simp
  ultimately show ?thesis using a by blast
qed

subsection \<open>Receiving\<close>


























end
